theory Spec2Isabelle
  imports Complex_Main
begin

section \<open>Errors\<close>

text \<open>
  \<^verbatim>\<open>HTTPException(status_code, detail)\<close> of FastAPI. Every \<^verbatim>\<open>raise\<close> of the
  source is an \<open>Inl\<close> value of the embedding.
\<close>

datatype http_error = HTTPException (status_code: int) (detail: string)

text \<open>
  Python exceptions other than \<^verbatim>\<open>HTTPException\<close>. \<open>SendError\<close> stands for
  whatever \<^verbatim>\<open>send_text\<close> raises on a connection that can no longer be written to;
  \<open>Failure\<close> for any other exception, with its message.
\<close>

datatype py_exception =
  WebSocketDisconnect | ValueError | TypeError | OverflowError | SendError | Failure string

text \<open>
  What leaves an HTTP endpoint function in place of a response: an
  \<^verbatim>\<open>HTTPException\<close>, which the framework answers with its status code, or any other
  exception, which \<^verbatim>\<open>error_handling_middleware\<close> (main.py 249--264) answers with
  status 500.
\<close>

datatype raised = Http http_error | Uncaught py_exception

section \<open>Python values\<close>

text \<open>
  Python \<^verbatim>\<open>str\<close> whose characters are inspected (a password, the response text): a
  list of code points. Strings that are only compared, stored or tested for emptiness
  (keys, names, tokens, headers) are \<open>string\<close>.
\<close>

type_synonym ustr = "nat list"

text \<open>
  A Python \<^verbatim>\<open>float\<close> is an IEEE 754 double. Every finite double is an integer
  multiple of \<^verbatim>\<open>2 ** -1074\<close>, and it is modelled by that integer:
  \<open>double m e\<close> is the double \<^verbatim>\<open>m * 2 ** e\<close>, for \<open>e\<close> from \<open>-1074\<close> and
  \<open>m\<close> of at most 53 bits. Infinities and NaN are not modelled; the floats of this
  program are readings of \<^verbatim>\<open>time.monotonic()\<close>.
\<close>

type_synonym pyfloat = int

definition double :: "int \<Rightarrow> int \<Rightarrow> pyfloat" where
  "double m e = m * 2 ^ nat (e + 1074)"

text \<open>\<^verbatim>\<open>int.bit_length\<close>\<close>

fun bit_length :: "nat \<Rightarrow> nat" where
  "bit_length n = (if n = 0 then 0 else Suc (bit_length (n div 2)))"

text \<open>
  Rounding of an exact magnitude to the nearest value with at most 53 significant bits,
  a tie going to the even significand: the \<open>s\<close> excess low bits are cut off and the
  rest is incremented when the cut-off part is more than half a unit, or exactly half a
  unit with an odd rest.
\<close>

definition round_magnitude :: "nat \<Rightarrow> nat" where
  "round_magnitude m =
     (let n = bit_length m in
      if n \<le> 53 then m
      else let s = n - 53; q = m div 2 ^ s; r = m mod 2 ^ s; half = 2 ^ (s - 1)
           in (if half < r \<or> (r = half \<and> odd q) then q + 1 else q) * 2 ^ s)"

definition round_double :: "int \<Rightarrow> pyfloat" where
  "round_double d =
     (if d < 0 then - int (round_magnitude (nat (- d))) else int (round_magnitude (nat d)))"

text \<open>
  \<^verbatim>\<open>a - b\<close> on floats: the exact difference, rounded to a double. A difference of
  two doubles is a multiple of \<^verbatim>\<open>2 ** -1074\<close>, so it never underflows; overflow
  to infinity, which needs an operand of magnitude \<^verbatim>\<open>2 ** 1023\<close>, is not modelled.
\<close>

definition float_sub :: "pyfloat \<Rightarrow> pyfloat \<Rightarrow> pyfloat" where
  "float_sub a b = round_double (a - b)"

text \<open>
  \<^verbatim>\<open>x > n\<close> for a float \<open>x\<close> and an int \<open>n\<close>: Python compares the two values
  exactly, without converting the int to a float.
\<close>

definition float_gt_int :: "pyfloat \<Rightarrow> int \<Rightarrow> bool" where
  "float_gt_int x n \<longleftrightarrow> n * 2 ^ 1074 < x"

section \<open>Rate limiter (\<^verbatim>\<open>SimpleRateLimiter\<close>, main.py 108--123)\<close>

text \<open>
  The limiter holds \<^verbatim>\<open>limit\<close>, \<^verbatim>\<open>window_seconds\<close> (both Python ints read from
  the environment, so possibly zero or negative) and the dict \<^verbatim>\<open>calls\<close> from key to
  a deque of \<^verbatim>\<open>time.monotonic()\<close> readings, which are floats. The
  \<^verbatim>\<open>asyncio.Lock\<close> is not modelled: \<open>hit\<close> is one atomic step that receives the
  clock reading \<open>now\<close> as an argument.
\<close>

record SimpleRateLimiter =
  limit :: int
  window_seconds :: int
  calls :: "string \<rightharpoonup> pyfloat list"

text \<open>
  \<^verbatim>\<open>while bucket and now - bucket[0] > self.window_seconds: bucket.popleft()\<close>
\<close>

fun prune :: "pyfloat \<Rightarrow> int \<Rightarrow> pyfloat list \<Rightarrow> pyfloat list" where
  "prune now w [] = []"
| "prune now w (t # bucket) =
     (if float_gt_int (float_sub now t) w then prune now w bucket else t # bucket)"

text \<open>
  \<^verbatim>\<open>bucket = self.calls.setdefault(key, deque())\<close>: a missing key gets an empty deque,
  which stays in the dict whether the call is admitted or not.
\<close>

definition setdefault_bucket :: "SimpleRateLimiter \<Rightarrow> string \<Rightarrow> pyfloat list" where
  "setdefault_bucket rl key = (case calls rl key of None \<Rightarrow> [] | Some b \<Rightarrow> b)"

definition rate_limit_exceeded :: http_error where
  "rate_limit_exceeded = HTTPException 429 ''Rate limit exceeded''"

text \<open>
  \<^verbatim>\<open>hit\<close> returns the outcome (\<open>Inl\<close> the raised exception) together with the
  limiter after the call: the pruning is kept also when the call is rejected.
\<close>

definition hit :: "SimpleRateLimiter \<Rightarrow> string \<Rightarrow> pyfloat \<Rightarrow> (http_error + unit) \<times> SimpleRateLimiter" where
  "hit rl key now =
     (let bucket = prune now (window_seconds rl) (setdefault_bucket rl key)
      in if int (length bucket) \<ge> limit rl
         then (Inl rate_limit_exceeded, rl\<lparr>calls := (calls rl)(key \<mapsto> bucket)\<rparr>)
         else (Inr (), rl\<lparr>calls := (calls rl)(key \<mapsto> bucket @ [now])\<rparr>))"

text \<open>
  A run of successive calls for one key, at the given clock readings; the outcomes are
  collected in call order.
\<close>

fun hits :: "SimpleRateLimiter \<Rightarrow> string \<Rightarrow> pyfloat list \<Rightarrow> (http_error + unit) list \<times> SimpleRateLimiter" where
  "hits rl key [] = ([], rl)"
| "hits rl key (now # nows) =
     (let (r, rl') = hit rl key now; (rs, rl'') = hits rl' key nows in (r # rs, rl''))"

section \<open>Token service (main.py 46--105)\<close>

text \<open>
  The module-level settings read from the environment.
\<close>

record config =
  SECRET_KEY :: string
  ALGORITHM :: string
  ACCESS_TOKEN_EXPIRE_MINUTES :: int
  SERVICE_ACCOUNT_USERNAME :: string
  SERVICE_ACCOUNT_PASSWORD_HASH :: "string option"
  SERVICE_ACCOUNT_PASSWORD :: ustr

text \<open>
  The values the settings take when the environment sets none of them; the password is
  \<^verbatim>\<open>"nphies-dev-password"\<close>.
\<close>

definition default_config :: config where
  "default_config =
     \<lparr>SECRET_KEY = ''change-me-in-production'', ALGORITHM = ''HS256'',
      ACCESS_TOKEN_EXPIRE_MINUTES = 60, SERVICE_ACCOUNT_USERNAME = ''nphies_service'',
      SERVICE_ACCOUNT_PASSWORD_HASH = None,
      SERVICE_ACCOUNT_PASSWORD =
        [110, 112, 104, 105, 101, 115, 45, 100, 101, 118, 45, 112, 97, 115, 115, 119, 111, 114, 100]\<rparr>"

text \<open>
  The claims of a token. The code reads and writes three keys of the payload dict only:
  \<^verbatim>\<open>sub\<close> (annotated \<^verbatim>\<open>Optional[str]\<close> in \<^verbatim>\<open>decode_token\<close>),
  \<^verbatim>\<open>scopes\<close> (\<^verbatim>\<open>List[str]\<close> in \<^verbatim>\<open>TokenData\<close>) and \<^verbatim>\<open>exp\<close>. A key that is
  absent is \<open>None\<close>. Times are whole seconds since the epoch, which is what the JWT
  carries.
\<close>

record claims =
  sub :: "string option"
  scopes :: "string list option"
  exp_claim :: "int option"

datatype jwt_error = JWTError

text \<open>
  \<^verbatim>\<open>jose.jwt\<close> is an external library and not part of the repository. Its two entry
  points are taken as a parameter: \<open>jwt_encode claims key algorithm\<close> and
  \<open>jwt_decode token key algorithms now\<close>, where \<open>now\<close> is the clock the library
  reads when it checks \<^verbatim>\<open>exp\<close>, and every failure is a \<^verbatim>\<open>JWTError\<close>. The type of
  tokens is left open.
\<close>

record 'tok jose =
  jwt_encode :: "claims \<Rightarrow> string \<Rightarrow> string \<Rightarrow> 'tok"
  jwt_decode :: "'tok \<Rightarrow> string \<Rightarrow> string list \<Rightarrow> int \<Rightarrow> jwt_error + claims"


text \<open>
  Modelled from the spec: a symbolic instance of that contract, used to run the token
  service on concrete inputs. A token is either the record of what was signed, with which
  key and algorithm, or a string that is no token at all.
\<close>

datatype sym_token = Signed claims string string | Malformed string

definition sym_decode :: "sym_token \<Rightarrow> string \<Rightarrow> string list \<Rightarrow> int \<Rightarrow> jwt_error + claims" where
  "sym_decode t k algs now =
     (case t of
        Malformed _ \<Rightarrow> Inl JWTError
      | Signed c k' a \<Rightarrow>
          if k' = k \<and> a \<in> set algs \<and> (case exp_claim c of None \<Rightarrow> True | Some e \<Rightarrow> \<not> e < now)
          then Inr c else Inl JWTError)"

definition sym_jose :: "sym_token jose" where
  "sym_jose = \<lparr>jwt_encode = Signed, jwt_decode = sym_decode\<rparr>"

text \<open>
  A second instance for tokens that are strings: it accepts exactly one token string,
  which carries the given claims, whatever the key.
\<close>

definition single_token_jose :: "string \<Rightarrow> claims \<Rightarrow> string jose" where
  "single_token_jose tok c =
     \<lparr>jwt_encode = (\<lambda>c' k a. tok),
      jwt_decode = (\<lambda>t k algs now. if t = tok then Inr c else Inl JWTError)\<rparr>"

text \<open>
  \<^verbatim>\<open>secrets.compare_digest(a, b)\<close> on two \<^verbatim>\<open>str\<close>: it raises
  \<^verbatim>\<open>TypeError\<close> unless both consist of ASCII characters only, and otherwise tells
  whether they are equal (in constant time, which is not modelled).
\<close>

definition is_ascii :: "ustr \<Rightarrow> bool" where
  "is_ascii s \<longleftrightarrow> list_all (\<lambda>c. c < 128) s"

definition compare_digest :: "ustr \<Rightarrow> ustr \<Rightarrow> py_exception + bool" where
  "compare_digest a b = (if is_ascii a \<and> is_ascii b then Inr (a = b) else Inl TypeError)"

text \<open>
  \<^verbatim>\<open>verify_password\<close>: with a configured (non-empty) hash the check is
  \<^verbatim>\<open>pwd_context.verify\<close> of passlib, an external library taken as the parameter
  \<open>pwd_verify\<close>, which returns a truth value or raises; without one it is
  \<^verbatim>\<open>secrets.compare_digest\<close> against the configured password.
\<close>

definition verify_password ::
  "(ustr \<Rightarrow> string \<Rightarrow> py_exception + bool) \<Rightarrow> config \<Rightarrow> ustr \<Rightarrow> string option \<Rightarrow> py_exception + bool" where
  "verify_password pwd_verify cfg plain_password hashed_password =
     (case hashed_password of
        Some h \<Rightarrow> if h \<noteq> [] then pwd_verify plain_password h
                  else compare_digest plain_password (SERVICE_ACCOUNT_PASSWORD cfg)
      | None \<Rightarrow> compare_digest plain_password (SERVICE_ACCOUNT_PASSWORD cfg))"

definition authenticate_user ::
  "(ustr \<Rightarrow> string \<Rightarrow> py_exception + bool) \<Rightarrow> config \<Rightarrow> string \<Rightarrow> ustr \<Rightarrow> py_exception + bool" where
  "authenticate_user pwd_verify cfg username password =
     (if username \<noteq> SERVICE_ACCOUNT_USERNAME cfg then Inr False
      else verify_password pwd_verify cfg password (SERVICE_ACCOUNT_PASSWORD_HASH cfg))"

text \<open>
  Times of the token service are whole seconds since the epoch.
  \<^verbatim>\<open>timedelta(minutes=m)\<close> raises \<^verbatim>\<open>OverflowError\<close> unless the number of days of
  the result has magnitude at most 999999999; the result is given in seconds.
\<close>

definition timedelta_minutes :: "int \<Rightarrow> py_exception + int" where
  "timedelta_minutes m =
     (let days = (m * 60) div 86400
      in if - 999999999 \<le> days \<and> days \<le> 999999999 then Inr (m * 60) else Inl OverflowError)"

text \<open>
  \<^verbatim>\<open>t + d\<close> for a \<^verbatim>\<open>datetime\<close> and a \<^verbatim>\<open>timedelta\<close>: it raises
  \<^verbatim>\<open>OverflowError\<close> unless the result lies between \<^verbatim>\<open>datetime.min\<close>, the
  first second of year 1, and \<^verbatim>\<open>datetime.max\<close>, the last second of year 9999.
\<close>

definition datetime_add :: "int \<Rightarrow> int \<Rightarrow> py_exception + int" where
  "datetime_add t d =
     (if - 62135596800 \<le> t + d \<and> t + d \<le> 253402300799 then Inr (t + d) else Inl OverflowError)"

text \<open>
  \<^verbatim>\<open>create_access_token(data, expires_delta=None)\<close>. \<open>utcnow\<close> is the reading of
  \<^verbatim>\<open>datetime.utcnow()\<close>, \<open>expires_delta\<close> a number of seconds; a zero
  \<^verbatim>\<open>timedelta\<close> is falsy in Python, so \<^verbatim>\<open>expires_delta or ...\<close> replaces it by the
  configured lifetime too, and the default \<^verbatim>\<open>timedelta\<close> is only built when it is
  needed.
\<close>

definition create_access_token ::
  "'tok jose \<Rightarrow> config \<Rightarrow> int \<Rightarrow> claims \<Rightarrow> int option \<Rightarrow> py_exception + 'tok" where
  "create_access_token J cfg utcnow data expires_delta =
     (case (case expires_delta of
              Some d \<Rightarrow> if d \<noteq> 0 then Inr d else timedelta_minutes (ACCESS_TOKEN_EXPIRE_MINUTES cfg)
            | None \<Rightarrow> timedelta_minutes (ACCESS_TOKEN_EXPIRE_MINUTES cfg)) of
        Inl e \<Rightarrow> Inl e
      | Inr delta \<Rightarrow>
          (case datetime_add utcnow delta of
             Inl e \<Rightarrow> Inl e
           | Inr expire \<Rightarrow>
               (let to_encode = data\<lparr>exp_claim := Some expire\<rparr>
                in Inr (jwt_encode J to_encode (SECRET_KEY cfg) (ALGORITHM cfg)))))"


definition credentials_exception :: http_error where
  "credentials_exception = HTTPException 401 ''Could not validate credentials''"

text \<open>The dict \<^verbatim>\<open>{"sub": subject, "scopes": ...}\<close> returned by \<^verbatim>\<open>decode_token\<close>.\<close>

record token_data =
  td_sub :: string
  td_scopes :: "string list"

definition decode_token :: "'tok jose \<Rightarrow> config \<Rightarrow> int \<Rightarrow> 'tok \<Rightarrow> http_error + token_data" where
  "decode_token J cfg utcnow token =
     (case jwt_decode J token (SECRET_KEY cfg) [ALGORITHM cfg] utcnow of
        Inl JWTError \<Rightarrow> Inl credentials_exception
      | Inr payload \<Rightarrow>
          (case sub payload of
             None \<Rightarrow> Inl credentials_exception
           | Some subject \<Rightarrow>
               Inr \<lparr>td_sub = subject,
                    td_scopes = (case scopes payload of None \<Rightarrow> [] | Some s \<Rightarrow> s)\<rparr>))"

section \<open>Token endpoint (\<^verbatim>\<open>login_for_access_token\<close>, main.py 235--247)\<close>

record login_form =
  username :: string
  password :: ustr

datatype 'tok token_response = TokenResponse (access_token: 'tok) (token_type: string)

text \<open>
  \<^verbatim>\<open>x or (request.client.host if request.client else "anonymous")\<close>: the fallback of
  the rate-limit key when \<open>x\<close> is empty. \<open>client_host\<close> is \<open>None\<close> when the request
  has no client.
\<close>

definition key_or_client :: "string \<Rightarrow> string option \<Rightarrow> string" where
  "key_or_client x client_host =
     (if x \<noteq> [] then x else (case client_host of Some h \<Rightarrow> h | None \<Rightarrow> ''anonymous''))"

text \<open>
  The endpoint returns the response or what was raised, and the limiter after the call.
  An exception of the password check or of \<^verbatim>\<open>create_access_token\<close> is not caught
  and leaves the endpoint, in the second case after the limiter has recorded the call.
\<close>

definition login_for_access_token ::
  "'tok jose \<Rightarrow> (ustr \<Rightarrow> string \<Rightarrow> py_exception + bool) \<Rightarrow> config \<Rightarrow> pyfloat \<Rightarrow> int \<Rightarrow> string option \<Rightarrow>
   SimpleRateLimiter \<Rightarrow> login_form \<Rightarrow> (raised + 'tok token_response) \<times> SimpleRateLimiter" where
  "login_for_access_token J pwd_verify cfg monotonic utcnow client_host rl form_data =
     (case authenticate_user pwd_verify cfg (username form_data) (password form_data) of
        Inl e \<Rightarrow> (Inl (Uncaught e), rl)
      | Inr authenticated \<Rightarrow>
          if \<not> authenticated
          then (Inl (Http (HTTPException 400 ''Incorrect username or password'')), rl)
          else
            let key = key_or_client (username form_data) client_host;
                (admitted, rl') = hit rl key monotonic
            in case admitted of
                 Inl e \<Rightarrow> (Inl (Http e), rl')
               | Inr _ \<Rightarrow>
                   (case create_access_token J cfg utcnow
                           \<lparr>sub = Some (username form_data), scopes = None, exp_claim = None\<rparr> None of
                      Inl e \<Rightarrow> (Inl (Uncaught e), rl')
                    | Inr token \<Rightarrow> (Inr (TokenResponse token ''bearer''), rl')))"

section \<open>WebSocket connections and the connection registry (main.py 360--376)\<close>

text \<open>What goes over a socket: a plain text, or the JSON object sent by the chat handler.\<close>

datatype payload = Text string | Ai_response ustr int string

datatype ws_action = Close int | Accept | Receive_text | Send_text payload

text \<open>
  A \<^verbatim>\<open>WebSocket\<close> object: its identity, the parts of the handshake request the code
  reads, the \<^verbatim>\<open>scope["state"]["user"]\<close> entry the guard sets, whether a write to it
  succeeds (the behaviour of the framework's \<^verbatim>\<open>send_text\<close>, not of the repository),
  and the operations performed on it so far, oldest first.
\<close>

record websocket =
  conn_id :: nat
  query_token :: "string option"
  authorization :: "string option"
  client_host :: "string option"
  scope_user :: "token_data option"
  writable :: bool
  wire :: "ws_action list"

text \<open>A socket on which nothing has been done yet and whose handshake carried no token.\<close>

definition new_websocket :: "nat \<Rightarrow> bool \<Rightarrow> websocket" where
  "new_websocket c w =
     \<lparr>conn_id = c, query_token = None, authorization = None, client_host = None,
      scope_user = None, writable = w, wire = []\<rparr>"

definition ws_do :: "ws_action \<Rightarrow> websocket \<Rightarrow> websocket" where
  "ws_do a ws = ws\<lparr>wire := wire ws @ [a]\<rparr>"

definition send_text :: "websocket \<Rightarrow> payload \<Rightarrow> (py_exception + unit) \<times> websocket" where
  "send_text ws msg = (if writable ws then (Inr (), ws_do (Send_text msg) ws) else (Inl SendError, ws))"

text \<open>
  \<^verbatim>\<open>ConnectionManager\<close>. Registered sockets are held by identity (the framework's
  \<^verbatim>\<open>WebSocket\<close> compares by identity), so the list holds their \<open>conn_id\<close>s.
\<close>

record ConnectionManager =
  active_connections :: "nat list"

definition connect :: "ConnectionManager \<Rightarrow> websocket \<Rightarrow> ConnectionManager \<times> websocket" where
  "connect m ws =
     (let ws' = ws_do Accept ws
      in (m\<lparr>active_connections := active_connections m @ [conn_id ws']\<rparr>, ws'))"

text \<open>
  \<^verbatim>\<open>self.active_connections.remove(websocket)\<close>: \<^verbatim>\<open>list.remove\<close> deletes the first
  occurrence and raises \<^verbatim>\<open>ValueError\<close> when there is none.
\<close>

definition disconnect :: "ConnectionManager \<Rightarrow> nat \<Rightarrow> (py_exception + unit) \<times> ConnectionManager" where
  "disconnect m c =
     (if c \<in> set (active_connections m)
      then (Inr (), m\<lparr>active_connections := remove1 c (active_connections m)\<rparr>)
      else (Inl ValueError, m))"

text \<open>
  \<^verbatim>\<open>for connection in self.active_connections: await connection.send_text(message)\<close>.
  The sockets live in a store from identity to object; an exception of \<^verbatim>\<open>send_text\<close>
  leaves the loop.
\<close>

fun broadcast_loop :: "nat list \<Rightarrow> (nat \<Rightarrow> websocket) \<Rightarrow> payload \<Rightarrow> (py_exception + unit) \<times> (nat \<Rightarrow> websocket)" where
  "broadcast_loop [] socks message = (Inr (), socks)"
| "broadcast_loop (connection # rest) socks message =
     (case send_text (socks connection) message of
        (Inl e, ws') \<Rightarrow> (Inl e, socks(connection := ws'))
      | (Inr _, ws') \<Rightarrow> broadcast_loop rest (socks(connection := ws')) message)"

definition broadcast :: "ConnectionManager \<Rightarrow> (nat \<Rightarrow> websocket) \<Rightarrow> payload \<Rightarrow> (py_exception + unit) \<times> (nat \<Rightarrow> websocket)" where
  "broadcast m socks message = broadcast_loop (active_connections m) socks message"

section \<open>WebSocket admission (\<^verbatim>\<open>secure_websocket\<close>, main.py 142--167)\<close>

text \<open>
  Header values reach the code decoded as Latin-1, one character per byte;
  \<^verbatim>\<open>str.lower\<close> on such a string maps A--Z and the upper-case letters
  \<open>0xC0\<close>--\<open>0xDE\<close> (but not the multiplication sign \<open>0xD7\<close>) 32 places up.
\<close>

definition lower_char :: "char \<Rightarrow> char" where
  "lower_char c =
     (let n = (of_char c :: nat)
      in if (65 \<le> n \<and> n \<le> 90) \<or> (192 \<le> n \<and> n \<le> 222 \<and> n \<noteq> 215) then char_of (n + 32) else c)"

definition lower :: "string \<Rightarrow> string" where
  "lower s = map lower_char s"

text \<open>
  \<^verbatim>\<open>auth_header.split(" ", 1)[1]\<close>: what follows the first space. It is only
  evaluated for a header that starts with \<^verbatim>\<open>bearer \<close>, so the index is in range.
\<close>

definition after_first_space :: "string \<Rightarrow> string" where
  "after_first_space s = drop 1 (dropWhile (\<lambda>c. c \<noteq> CHR '' '') s)"

text \<open>
  The token the handshake presents: the query parameter \<^verbatim>\<open>token\<close>, or, if that is
  missing or empty, the rest of a bearer \<^verbatim>\<open>Authorization\<close> header.
\<close>

definition falsy :: "string option \<Rightarrow> bool" where
  "falsy t = (case t of None \<Rightarrow> True | Some s \<Rightarrow> s = [])"

definition resolve_token :: "websocket \<Rightarrow> string option" where
  "resolve_token ws =
     (let token = query_token ws
      in if falsy token
         then (case authorization ws of
                 None \<Rightarrow> token
               | Some auth_header \<Rightarrow>
                   if auth_header \<noteq> [] \<and> take 7 (lower auth_header) = ''bearer ''
                   then Some (after_first_space auth_header) else token)
         else token)"

definition secure_websocket ::
  "string jose \<Rightarrow> config \<Rightarrow> pyfloat \<Rightarrow> int \<Rightarrow> SimpleRateLimiter \<Rightarrow> websocket \<Rightarrow>
   (py_exception + token_data) \<times> SimpleRateLimiter \<times> websocket" where
  "secure_websocket J cfg monotonic utcnow rl ws =
     (case resolve_token ws of
        None \<Rightarrow> (Inl WebSocketDisconnect, rl, ws_do (Close 4401) ws)
      | Some token \<Rightarrow>
          if token = [] then (Inl WebSocketDisconnect, rl, ws_do (Close 4401) ws)
          else
            (case decode_token J cfg utcnow token of
               Inl _ \<Rightarrow> (Inl WebSocketDisconnect, rl, ws_do (Close 4401) ws)
             | Inr token_data \<Rightarrow>
                 let key = key_or_client (td_sub token_data) (client_host ws);
                     (admitted, rl') = hit rl key monotonic
                 in (case admitted of
                       Inl _ \<Rightarrow> (Inl WebSocketDisconnect, rl', ws_do (Close 4429) ws)
                     | Inr _ \<Rightarrow> (Inr token_data, rl', ws\<lparr>scope_user := Some token_data\<rparr>))))"

section \<open>WebSocket chat handler (\<^verbatim>\<open>websocket_chat\<close>, main.py 768--795)\<close>

text \<open>
  The response generator \<^verbatim>\<open>get_healthcare_response(message, context)\<close> is the
  boundary to an external collaborator; it is a parameter that either returns a text or
  raises.

  The frames a peer sends are a list; each entry gives the clock reading used for the
  reply's timestamp and what \<^verbatim>\<open>json.loads(data)\<close> followed by
  \<^verbatim>\<open>.get("message", "")\<close> yields for that frame (the message text, or the exception
  raised). When the list is exhausted the peer has gone and \<^verbatim>\<open>receive_text\<close> raises
  \<^verbatim>\<open>WebSocketDisconnect\<close>.
\<close>

type_synonym generator = "ustr \<Rightarrow> ustr option \<Rightarrow> py_exception + ustr"

text \<open>
  An exception inside the \<^verbatim>\<open>try\<close>: \<^verbatim>\<open>WebSocketDisconnect\<close> is caught and the
  socket unregistered; anything else leaves the handler.
\<close>

definition chat_except ::
  "py_exception \<Rightarrow> ConnectionManager \<Rightarrow> websocket \<Rightarrow> py_exception option \<times> ConnectionManager \<times> websocket" where
  "chat_except e m ws =
     (if e = WebSocketDisconnect
      then (case disconnect m (conn_id ws) of
              (Inl e', m') \<Rightarrow> (Some e', m', ws)
            | (Inr _, m') \<Rightarrow> (None, m', ws))
      else (Some e, m, ws))"

fun chat_loop ::
  "generator \<Rightarrow> token_data \<Rightarrow> (int \<times> (py_exception + ustr)) list \<Rightarrow> ConnectionManager \<Rightarrow> websocket \<Rightarrow>
   py_exception option \<times> ConnectionManager \<times> websocket" where
  "chat_loop get_healthcare_response token_data [] m ws =
     chat_except WebSocketDisconnect m (ws_do Receive_text ws)"
| "chat_loop get_healthcare_response token_data ((utcnow, frame) # frames) m ws =
     (let ws1 = ws_do Receive_text ws
      in case frame of
           Inl e \<Rightarrow> chat_except e m ws1
         | Inr message \<Rightarrow>
             (case get_healthcare_response message None of
                Inl e \<Rightarrow> chat_except e m ws1
              | Inr response \<Rightarrow>
                  (case send_text ws1 (Ai_response response utcnow (td_sub token_data)) of
                     (Inl e, ws2) \<Rightarrow> chat_except e m ws2
                   | (Inr _, ws2) \<Rightarrow> chat_loop get_healthcare_response token_data frames m ws2)))"

text \<open>
  The handler returns the exception that left it (if any), the limiter, the registry and
  the socket.
\<close>

definition websocket_chat ::
  "string jose \<Rightarrow> config \<Rightarrow> generator \<Rightarrow> pyfloat \<Rightarrow> int \<Rightarrow> (int \<times> (py_exception + ustr)) list \<Rightarrow>
   SimpleRateLimiter \<Rightarrow> ConnectionManager \<Rightarrow> websocket \<Rightarrow>
   py_exception option \<times> SimpleRateLimiter \<times> ConnectionManager \<times> websocket" where
  "websocket_chat J cfg get_healthcare_response monotonic utcnow frames rl m ws =
     (case secure_websocket J cfg monotonic utcnow rl ws of
        (Inl _, rl', ws') \<Rightarrow> (None, rl', m, ws')
      | (Inr token_data, rl', ws') \<Rightarrow>
          (let (m', ws'') = connect m ws';
               (raised, m'', ws''') = chat_loop get_healthcare_response token_data frames m' ws''
           in (raised, rl', m'', ws''')))"

section \<open>Python string operations used by the chat stream\<close>

text \<open>
  The code points for which \<^verbatim>\<open>str.isspace\<close> holds; \<^verbatim>\<open>str.split()\<close> and
  \<^verbatim>\<open>str.strip()\<close> without arguments use the same set.
\<close>

definition isspace :: "nat \<Rightarrow> bool" where
  "isspace c \<longleftrightarrow>
     (9 \<le> c \<and> c \<le> 13) \<or> (28 \<le> c \<and> c \<le> 32) \<or> c = 133 \<or> c = 160 \<or> c = 5760 \<or>
     (8192 \<le> c \<and> c \<le> 8202) \<or> c = 8232 \<or> c = 8233 \<or> c = 8239 \<or> c = 8287 \<or> c = 12288"

text \<open>\<^verbatim>\<open>s.split()\<close>: the maximal runs of non-space characters, in order.\<close>

fun split_from :: "ustr \<Rightarrow> ustr \<Rightarrow> ustr list" where
  "split_from cur [] = (if cur = [] then [] else [cur])"
| "split_from cur (c # cs) =
     (if isspace c then (if cur = [] then split_from [] cs else cur # split_from [] cs)
      else split_from (cur @ [c]) cs)"

definition py_split :: "ustr \<Rightarrow> ustr list" where
  "py_split s = split_from [] s"

text \<open>\<^verbatim>\<open>sep.join(words)\<close>\<close>

fun py_join :: "ustr \<Rightarrow> ustr list \<Rightarrow> ustr" where
  "py_join sep [] = []"
| "py_join sep [w] = w"
| "py_join sep (w # ws) = w @ sep @ py_join sep ws"

text \<open>\<^verbatim>\<open>s.strip()\<close>\<close>

definition py_strip :: "ustr \<Rightarrow> ustr" where
  "py_strip s = rev (dropWhile isspace (rev (dropWhile isspace s)))"

text \<open>
  Two notions for stating what the stream carries: a word as \<open>py_split\<close> produces
  them (non-empty, free of white space), and the text the loop of the chat stream
  accumulates (every word followed by one space).
\<close>

definition word_ok :: "ustr \<Rightarrow> bool" where
  "word_ok w \<longleftrightarrow> w \<noteq> [] \<and> list_all (\<lambda>c. \<not> isspace c) w"

definition spaced :: "ustr list \<Rightarrow> ustr" where
  "spaced ws = concat (map (\<lambda>w. w @ [32]) ws)"

section \<open>Chat stream (\<^verbatim>\<open>chat_endpoint.generate_response\<close>, main.py 726--755)\<close>

record ChatMessage =
  message :: ustr
  language :: string
  session_id :: "string option"
  msg_context :: "ustr option"

text \<open>
  The JSON objects the generator yields, one constructor per shape, each written as an
  SSE frame by the source. The \<^verbatim>\<open>progress\<close> and \<^verbatim>\<open>confidence\<close> values are Python
  floats; they are modelled as reals.
\<close>

datatype event =
    Session_start string string
  | Thinking string
  | Partial_response ustr real
  | Final_response ustr real string string
  | Session_end string

text \<open>The \<^verbatim>\<open>type\<close> entry of an event.\<close>

fun etype :: "event \<Rightarrow> string" where
  "etype (Session_start _ _) = ''session_start''"
| "etype (Thinking _) = ''thinking''"
| "etype (Partial_response _ _) = ''partial_response''"
| "etype (Final_response _ _ _ _) = ''final_response''"
| "etype (Session_end _) = ''session_end''"

text \<open>The \<^verbatim>\<open>progress\<close> values a client reads off a stream, in order.\<close>

fun progress_values :: "event list \<Rightarrow> real list" where
  "progress_values [] = []"
| "progress_values (Partial_response _ p # es) = p # progress_values es"
| "progress_values (_ # es) = progress_values es"

definition chunk_size :: nat where
  "chunk_size = 10"

text \<open>
  The loop
  \<^verbatim>\<open>for i in range(0, len(words), chunk_size)\<close> from its state at index \<open>i\<close> with the
  text accumulated so far. The chunk size is an argument so that the loop can be studied
  for any positive size; \<^verbatim>\<open>range\<close> with step 0 raises, which the source's constant 10
  never meets, and the function is only used with a positive step.
\<close>

function partial_responses :: "nat \<Rightarrow> ustr list \<Rightarrow> nat \<Rightarrow> ustr \<Rightarrow> event list" where
  "partial_responses cs words i response_text =
     (if 0 < cs \<and> i < length words
      then
        (let chunk = take cs (drop i words);
             response_text' = response_text @ py_join [32] chunk @ [32]
         in Partial_response (py_strip response_text')
              (min (real (i + cs) / real (length words)) 1)
            # partial_responses cs words (i + cs) response_text')
      else [])"
  by pat_completeness auto
termination
  by (relation "measure (\<lambda>(cs, words, i, response_text). length words - i)") auto

text \<open>
  The generator: the events it yields, and the exception that ended it if one did.
  \<open>uuid4\<close> is the fresh identifier \<^verbatim>\<open>str(uuid.uuid4())\<close>. There is no
  \<^verbatim>\<open>try\<close> in the source: an exception of the response generator leaves the generator
  after the two opening events.
\<close>

definition generate_response :: "generator \<Rightarrow> string \<Rightarrow> ChatMessage \<Rightarrow> event list \<times> py_exception option" where
  "generate_response get_healthcare_response uuid4 msg =
     (let sid = (case session_id msg of
                   None \<Rightarrow> uuid4
                 | Some s \<Rightarrow> if s \<noteq> [] then s else uuid4);
          opening = [Session_start sid (language msg),
                     Thinking ''Analyzing your healthcare query...'']
      in case get_healthcare_response (message msg) (msg_context msg) of
           Inl e \<Rightarrow> (opening, Some e)
         | Inr ai_response \<Rightarrow>
             (opening
              @ partial_responses chunk_size (py_split ai_response) 0 []
              @ [Final_response ai_response (95 / 100) (language msg) ''healthcare'',
                 Session_end sid],
              None))"

section \<open>Properties of the float subtraction\<close>

declare bit_length.simps [simp del]

lemma bit_length_0: "bit_length 0 = 0"
  by (simp add: bit_length.simps)

lemma bit_length_pos: "0 < n \<Longrightarrow> bit_length n = Suc (bit_length (n div 2))"
  by (subst bit_length.simps) simp

lemma bit_length_upper: "n < 2 ^ bit_length n"
proof (induction n rule: bit_length.induct)
  case (1 n)
  show ?case
  proof (cases "n = 0")
    case True
    then show ?thesis by (simp add: bit_length_0)
  next
    case False
    then have "n div 2 < 2 ^ bit_length (n div 2)" using 1 by simp
    then have "n < 2 * 2 ^ bit_length (n div 2)" by linarith
    then show ?thesis using False by (simp add: bit_length_pos)
  qed
qed

lemma bit_length_lower: "0 < n \<Longrightarrow> 2 ^ (bit_length n - 1) \<le> n"
proof (induction n rule: bit_length.induct)
  case (1 n)
  show ?case
  proof (cases "n div 2 = 0")
    case True
    then have "n = 1" using 1(2) by linarith
    then show ?thesis by (simp add: bit_length_pos bit_length_0)
  next
    case False
    then have "2 ^ (bit_length (n div 2) - 1) \<le> n div 2" using 1 by simp
    moreover have "bit_length (n div 2) = Suc (bit_length (n div 2) - 1)"
      using False by (simp add: bit_length_pos)
    ultimately have "2 ^ bit_length (n div 2) \<le> 2 * (n div 2)"
      by (metis power_Suc mult_le_mono2)
    then have "2 ^ bit_length (n div 2) \<le> n" by linarith
    then show ?thesis using 1(2) by (simp add: bit_length_pos)
  qed
qed

lemma bit_length_SucD: "bit_length n = Suc k \<Longrightarrow> 2 ^ k \<le> n"
  using bit_length_lower [of n] by (cases "n = 0") (simp_all add: bit_length_0)

lemma bit_length_unique:
  assumes "2 ^ k \<le> n" "n < 2 ^ Suc k"
  shows "bit_length n = Suc k"
proof -
  have pos: "0 < n" using assms(1) by (metis less_le_trans zero_less_numeral zero_less_power)
  have "(2::nat) ^ k < 2 ^ bit_length n"
    using assms(1) bit_length_upper [of n] by linarith
  then have a: "k < bit_length n" by simp
  have "(2::nat) ^ (bit_length n - 1) < 2 ^ Suc k"
    using bit_length_lower [OF pos] assms(2) by linarith
  then have "bit_length n - 1 < Suc k"
    by (rule power_less_imp_less_exp [rotated]) simp
  with a show ?thesis by linarith
qed

lemma bit_length_mono: "m \<le> n \<Longrightarrow> bit_length m \<le> bit_length n"
proof (cases "m = 0")
  case True
  then show ?thesis by (simp add: bit_length_0)
next
  case False
  assume le: "m \<le> n"
  have "(2::nat) ^ (bit_length m - 1) < 2 ^ bit_length n"
    using bit_length_lower [of m] False le bit_length_upper [of n] by linarith
  then have "bit_length m - 1 < bit_length n" by simp
  then show ?thesis by linarith
qed

lemma bit_length_shift: "0 < n \<Longrightarrow> bit_length (n * 2 ^ j) = bit_length n + j"
proof (induction j)
  case 0
  then show ?case by simp
next
  case (Suc j)
  have "0 < n * 2 ^ Suc j" using Suc.prems by simp
  then have "bit_length (n * 2 ^ Suc j) = Suc (bit_length ((n * 2 ^ Suc j) div 2))"
    by (rule bit_length_pos)
  also have "(n * 2 ^ Suc j) div 2 = n * 2 ^ j" by simp
  finally show ?case using Suc by simp
qed

lemma round_magnitude_small: "bit_length m \<le> 53 \<Longrightarrow> round_magnitude m = m"
  by (simp add: round_magnitude_def)

lemma round_magnitude_big:
  assumes "bit_length m = s + 53" "0 < s"
  shows "round_magnitude m =
     (if 2 ^ (s - 1) < m mod 2 ^ s \<or> (m mod 2 ^ s = 2 ^ (s - 1) \<and> odd (m div 2 ^ s))
      then m div 2 ^ s + 1 else m div 2 ^ s) * 2 ^ s"
  using assms by (simp add: round_magnitude_def Let_def)

lemma big_quotient:
  assumes "bit_length m = s + 53" "0 < s"
  shows "2 ^ 52 \<le> m div 2 ^ s" "m div 2 ^ s < 2 ^ 53"
proof -
  have "bit_length m = Suc (s + 52)" using assms by simp
  then have "(2::nat) ^ (s + 52) \<le> m" by (rule bit_length_SucD)
  then have "(2::nat) ^ 52 * 2 ^ s \<le> m" by (simp add: power_add mult.commute)
  then show "2 ^ 52 \<le> m div 2 ^ s"
    by (simp add: less_eq_div_iff_mult_less_eq)
  have "m < 2 ^ (s + 53)" using bit_length_upper [of m] assms by simp
  then have "m < 2 ^ 53 * 2 ^ s" by (simp add: power_add mult.commute)
  then show "m div 2 ^ s < 2 ^ 53"
    by (simp add: less_mult_imp_div_less)
qed

lemma round_magnitude_lower: "0 < m \<Longrightarrow> 2 ^ (bit_length m - 1) \<le> round_magnitude m"
proof (cases "bit_length m \<le> 53")
  case True
  assume "0 < m"
  then show ?thesis using True bit_length_lower [of m] by (simp add: round_magnitude_small)
next
  case False
  define s where "s = bit_length m - 53"
  have n: "bit_length m = s + 53" "0 < s" using False by (simp_all add: s_def)
  have "(2::nat) ^ 52 * 2 ^ s \<le> (m div 2 ^ s) * 2 ^ s"
    using big_quotient(1) [OF n] by (rule mult_le_mono1)
  also have "\<dots> \<le> round_magnitude m"
    by (simp add: round_magnitude_big [OF n])
  finally show ?thesis using n by (simp add: power_add mult.commute)
qed

lemma round_magnitude_upper: "round_magnitude m \<le> 2 ^ bit_length m"
proof (cases "bit_length m \<le> 53")
  case True
  then show ?thesis using bit_length_upper [of m] by (simp add: round_magnitude_small)
next
  case False
  define s where "s = bit_length m - 53"
  have n: "bit_length m = s + 53" "0 < s" using False by (simp_all add: s_def)
  have "round_magnitude m \<le> (m div 2 ^ s + 1) * 2 ^ s"
    by (simp add: round_magnitude_big [OF n])
  also have "\<dots> \<le> 2 ^ 53 * 2 ^ s"
    using big_quotient(2) [OF n] by (intro mult_le_mono1) simp
  finally show ?thesis using n by (simp add: power_add mult.commute)
qed


lemma round_magnitude_0: "round_magnitude 0 = 0"
  by (simp add: round_magnitude_small bit_length_0)

lemma round_up_mono:
  fixes q r r' h :: nat
  assumes "r \<le> r'"
  shows "(if h < r \<or> (r = h \<and> odd q) then q + 1 else q)
       \<le> (if h < r' \<or> (r' = h \<and> odd q) then q + 1 else q)"
  using assms by auto

lemma round_magnitude_mono:
  assumes le: "m \<le> m'"
  shows "round_magnitude m \<le> round_magnitude m'"
proof (cases "m = 0")
  case True
  then show ?thesis by (simp add: round_magnitude_0)
next
  case False
  then have pos: "0 < m" "0 < m'" using le by simp_all
  have bl: "bit_length m \<le> bit_length m'" using le by (rule bit_length_mono)
  show ?thesis
  proof (cases "bit_length m = bit_length m'")
    case False
    with bl have "bit_length m \<le> bit_length m' - 1" by simp
    then have "(2::nat) ^ bit_length m \<le> 2 ^ (bit_length m' - 1)"
      by (rule power_increasing) simp
    with round_magnitude_upper [of m] round_magnitude_lower [OF pos(2)]
    show ?thesis by linarith
  next
    case same: True
    show ?thesis
    proof (cases "bit_length m \<le> 53")
      case True
      then show ?thesis using same le by (simp add: round_magnitude_small)
    next
      case False
      define s where "s = bit_length m - 53"
      have n: "bit_length m = s + 53" "0 < s" using False by (simp_all add: s_def)
      have n': "bit_length m' = s + 53" using n same by simp
      define q r q' r' where "q = m div 2 ^ s" and "r = m mod 2 ^ s"
        and "q' = m' div 2 ^ s" and "r' = m' mod 2 ^ s"
      define h :: nat where "h = 2 ^ (s - 1)"
      define up :: "nat \<Rightarrow> nat \<Rightarrow> nat" where "up = (\<lambda>q r. if h < r \<or> (r = h \<and> odd q) then q + 1 else q)"
      have rm: "round_magnitude m = up q r * 2 ^ s"
        by (simp add: round_magnitude_big [OF n] up_def q_def r_def h_def)
      have rm': "round_magnitude m' = up q' r' * 2 ^ s"
        by (simp add: round_magnitude_big [OF n' n(2)] up_def q'_def r'_def h_def)
      have m: "m = q * 2 ^ s + r" and m': "m' = q' * 2 ^ s + r'"
        by (simp_all only: q_def r_def q'_def r'_def div_mult_mod_eq)
      have qq: "q \<le> q'" unfolding q_def q'_def using le by (rule div_le_mono)
      have "up q r \<le> up q' r'"
      proof (cases "q = q'")
        case True
        then have "r \<le> r'" using le m m' by simp
        then show ?thesis unfolding up_def True by (rule round_up_mono)
      next
        case False
        then have "q + 1 \<le> q'" using qq by simp
        moreover have "up q r \<le> q + 1" by (simp add: up_def)
        moreover have "q' \<le> up q' r'" by (simp add: up_def)
        ultimately show ?thesis by linarith
      qed
      then show ?thesis unfolding rm rm' by (rule mult_le_mono1)
    qed
  qed
qed

lemma round_magnitude_shift: "round_magnitude (m * 2 ^ j) = round_magnitude m * 2 ^ j"
proof (cases "m = 0")
  case True
  then show ?thesis by (simp add: round_magnitude_0)
next
  case False
  then have bl: "bit_length (m * 2 ^ j) = bit_length m + j"
    by (simp add: bit_length_shift)
  show ?thesis
  proof (cases "bit_length m \<le> 53")
    case small: True
    show ?thesis
    proof (cases "bit_length m + j \<le> 53")
      case True
      then show ?thesis using small bl by (simp add: round_magnitude_small)
    next
      case False
      define s where "s = bit_length m + j - 53"
      have n: "bit_length (m * 2 ^ j) = s + 53" "0 < s" using False bl by (simp_all add: s_def)
      have sj: "s \<le> j" using small by (simp add: s_def)
      then obtain k where j: "j = s + k" using le_Suc_ex by blast
      have split: "m * 2 ^ j = (m * 2 ^ k) * 2 ^ s" by (simp add: j power_add mult.commute)
      have r: "(m * 2 ^ j) mod 2 ^ s = 0" and q: "(m * 2 ^ j) div 2 ^ s = m * 2 ^ k"
        unfolding split by simp_all
      have "round_magnitude (m * 2 ^ j) = m * 2 ^ k * 2 ^ s"
        unfolding round_magnitude_big [OF n] r q by simp
      also have "\<dots> = m * 2 ^ j" by (simp only: split)
      finally show ?thesis using small by (simp add: round_magnitude_small)
    qed
  next
    case False
    define s where "s = bit_length m - 53"
    have n: "bit_length m = s + 53" "0 < s" using False by (simp_all add: s_def)
    have n': "bit_length (m * 2 ^ j) = (s + j) + 53" "0 < s + j" using n bl by simp_all
    have q: "(m * 2 ^ j) div 2 ^ (s + j) = m div 2 ^ s"
      by (simp add: power_add)
    have r: "(m * 2 ^ j) mod 2 ^ (s + j) = (m mod 2 ^ s) * 2 ^ j"
      by (simp add: power_add mult_mod_left)
    have h: "(2::nat) ^ (s + j - 1) = 2 ^ (s - 1) * 2 ^ j"
      using n(2) by (simp flip: power_add)
    show ?thesis
      unfolding round_magnitude_big [OF n'] round_magnitude_big [OF n] q r h
      by (simp add: power_add)
  qed
qed

lemma round_magnitude_exact: "m < 2 ^ 53 \<Longrightarrow> round_magnitude m = m"
proof -
  assume a: "m < 2 ^ 53"
  have "bit_length m \<le> 53"
  proof (rule ccontr)
    assume "\<not> bit_length m \<le> 53"
    then have "(2::nat) ^ 53 \<le> 2 ^ (bit_length m - 1)"
      by (intro power_increasing) simp_all
    moreover have "0 < m" using \<open>\<not> bit_length m \<le> 53\<close> by (cases "m = 0") (simp_all add: bit_length_0)
    ultimately show False using bit_length_lower [of m] a by linarith
  qed
  then show ?thesis by (rule round_magnitude_small)
qed

lemma nat_shift: "0 \<le> z \<Longrightarrow> nat (z * 2 ^ j) = nat z * 2 ^ j"
  by (simp add: nat_mult_distrib nat_power_eq)

lemma round_magnitude_at:
  assumes "2 ^ (s + 52) \<le> m" "m < 2 ^ (s + 53)" "0 < s"
  shows "round_magnitude m =
     (if 2 ^ (s - 1) < m mod 2 ^ s \<or> (m mod 2 ^ s = 2 ^ (s - 1) \<and> odd (m div 2 ^ s))
      then m div 2 ^ s + 1 else m div 2 ^ s) * 2 ^ s"
proof -
  have "m < 2 ^ Suc (s + 52)"
    using assms(2) by (simp add: add.commute)
  with assms(1) have "bit_length m = Suc (s + 52)"
    by (rule bit_length_unique)
  then have "bit_length m = s + 53" by simp
  then show ?thesis using assms(3) by (rule round_magnitude_big)
qed

lemma round_double_nat: "round_double (int m) = int (round_magnitude m)"
  by (simp add: round_double_def)

lemma round_double_mono: "d \<le> d' \<Longrightarrow> round_double d \<le> round_double d'"
  using round_magnitude_mono [of "nat d" "nat d'"] round_magnitude_mono [of "nat (- d')" "nat (- d)"]
  by (auto simp: round_double_def)

lemma round_double_shift: "round_double (d * 2 ^ j) = round_double d * 2 ^ j"
proof (cases "d < 0")
  case True
  then have "d * 2 ^ j < 0" by (simp add: mult_less_0_iff)
  moreover have "nat (- (d * 2 ^ j)) = nat (- d) * 2 ^ j"
    using True nat_shift [of "- d" j] by simp
  ultimately show ?thesis using True
    by (simp add: round_double_def round_magnitude_shift)
next
  case False
  then have "\<not> d * 2 ^ j < 0" by (simp add: mult_less_0_iff)
  moreover have "nat (d * 2 ^ j) = nat d * 2 ^ j"
    using False by (simp add: nat_shift)
  ultimately show ?thesis using False
    by (simp add: round_double_def round_magnitude_shift)
qed

lemma round_double_exact: "\<bar>d\<bar> < 2 ^ 53 \<Longrightarrow> round_double d = d"
  using round_magnitude_exact [of "nat d"] round_magnitude_exact [of "nat (- d)"]
  by (auto simp: round_double_def nat_less_iff)

lemma float_sub_mono: "a \<le> a' \<Longrightarrow> b' \<le> b \<Longrightarrow> float_sub a b \<le> float_sub a' b'"
  unfolding float_sub_def by (rule round_double_mono) simp

lemma float_gt_int_mono: "x \<le> y \<Longrightarrow> float_gt_int x w \<Longrightarrow> float_gt_int y w"
  by (simp add: float_gt_int_def)

lemma float_sub_double:
  "0 \<le> e + 1074 \<Longrightarrow> 0 \<le> e' + 1074 \<Longrightarrow> e' \<le> e \<Longrightarrow>
   float_sub (double m e) (double m' e') = double (round_double (m * 2 ^ nat (e - e') - m')) e'"
proof -
  assume a: "0 \<le> e + 1074" "0 \<le> e' + 1074" "e' \<le> e"
  have "nat (e + 1074) = nat (e - e') + nat (e' + 1074)"
    using a by linarith
  then have "m * 2 ^ nat (e + 1074) - m' * 2 ^ nat (e' + 1074)
      = (m * 2 ^ nat (e - e') - m') * 2 ^ nat (e' + 1074)"
    by (simp add: power_add algebra_simps)
  then show ?thesis
    by (simp add: float_sub_def double_def round_double_shift)
qed

lemma double_shift:
  "0 \<le> e' + 1074 \<Longrightarrow> e' \<le> e \<Longrightarrow> double m e = double (m * 2 ^ nat (e - e')) e'"
proof -
  assume a: "0 \<le> e' + 1074" "e' \<le> e"
  have "nat (e + 1074) = nat (e - e') + nat (e' + 1074)"
    using a by linarith
  then show ?thesis
    by (simp add: double_def power_add)
qed

lemma double_less_iff: "double m e < double m' e \<longleftrightarrow> m < m'"
  by (simp add: double_def)

lemma double_le_iff: "double m e \<le> double m' e \<longleftrightarrow> m \<le> m'"
  by (simp add: double_def)

lemma float_gt_int_double:
  "0 \<le> e + 1074 \<Longrightarrow> e \<le> 0 \<Longrightarrow> float_gt_int (double m e) w \<longleftrightarrow> w * 2 ^ nat (- e) < m"
proof -
  assume a: "0 \<le> e + 1074" "e \<le> 0"
  have n: "nat (- e) + nat (e + 1074) = 1074"
    using a by linarith
  have p: "(2::int) ^ 1074 = 2 ^ nat (- e) * 2 ^ nat (e + 1074)"
    unfolding n [symmetric] by (rule power_add)
  have "float_gt_int (double m e) w \<longleftrightarrow> (w * 2 ^ nat (- e)) * 2 ^ nat (e + 1074) < m * 2 ^ nat (e + 1074)"
    unfolding float_gt_int_def double_def p by (simp only: mult.assoc)
  also have "\<dots> \<longleftrightarrow> w * 2 ^ nat (- e) < m"
    by (rule mult_less_cancel_right_pos) simp
  finally show ?thesis .
qed

lemma float_sub_double2:
  "0 \<le> e + 1074 \<Longrightarrow> 0 \<le> e' + 1074 \<Longrightarrow> e \<le> e' \<Longrightarrow>
   float_sub (double m e) (double m' e') = double (round_double (m - m' * 2 ^ nat (e' - e))) e"
proof -
  assume a: "0 \<le> e + 1074" "0 \<le> e' + 1074" "e \<le> e'"
  have "nat (e' + 1074) = nat (e' - e) + nat (e + 1074)"
    using a by linarith
  then have "m * 2 ^ nat (e + 1074) - m' * 2 ^ nat (e' + 1074)
      = (m - m' * 2 ^ nat (e' - e)) * 2 ^ nat (e + 1074)"
    by (simp add: power_add algebra_simps)
  then show ?thesis
    by (simp add: float_sub_def double_def round_double_shift)
qed

section \<open>Properties of the rate limiter\<close>

lemma prune_dropWhile: "prune now w b = dropWhile (\<lambda>t. float_gt_int (float_sub now t) w) b"
  by (induction b) auto

lemma older_mono:
  "t \<le> t' \<Longrightarrow> float_gt_int (float_sub now t') w \<Longrightarrow> float_gt_int (float_sub now t) w"
  using float_sub_mono [of now now t t'] float_gt_int_mono by blast

lemma prune_filter_sorted:
  "sorted b \<Longrightarrow> prune now w b = filter (\<lambda>t. \<not> float_gt_int (float_sub now t) w) b"
proof (induction b)
  case Nil
  then show ?case by simp
next
  case (Cons t b)
  show ?case
  proof (cases "float_gt_int (float_sub now t) w")
    case True
    with Cons show ?thesis by simp
  next
    case False
    have "\<forall>x\<in>set b. \<not> float_gt_int (float_sub now x) w"
    proof
      fix x assume "x \<in> set b"
      then have "t \<le> x" using Cons.prems by simp
      then show "\<not> float_gt_int (float_sub now x) w"
        using False older_mono by blast
    qed
    then have "filter (\<lambda>t. \<not> float_gt_int (float_sub now t) w) b = b"
      by (simp add: filter_id_conv)
    with False show ?thesis by simp
  qed
qed

lemma prune_id: "\<forall>x\<in>set b. \<not> float_gt_int (float_sub now x) w \<Longrightarrow> prune now w b = b"
  by (cases b) auto

lemma prune_sorted: "sorted b \<Longrightarrow> sorted (prune now w b)"
  by (simp add: prune_dropWhile sorted_dropWhile)

lemma set_prune: "set (prune now w b) \<subseteq> set b"
  by (simp add: prune_dropWhile set_dropWhileD subsetI)

lemma length_prune: "length (prune now w b) \<le> length b"
  by (simp add: prune_dropWhile length_dropWhile_le)

lemma hit_fst:
  "fst (hit rl key now) =
     (if int (length (prune now (window_seconds rl) (setdefault_bucket rl key))) \<ge> limit rl
      then Inl rate_limit_exceeded else Inr ())"
  by (simp add: hit_def Let_def)

lemma hit_bucket:
  "setdefault_bucket (snd (hit rl key now)) key =
     (let b = prune now (window_seconds rl) (setdefault_bucket rl key)
      in if int (length b) \<ge> limit rl then b else b @ [now])"
  by (simp add: hit_def Let_def setdefault_bucket_def)

lemma hit_config:
  "limit (snd (hit rl key now)) = limit rl"
  "window_seconds (snd (hit rl key now)) = window_seconds rl"
  by (simp_all add: hit_def Let_def)

lemma hits_Cons:
  "fst (hits rl key (t # ts)) = fst (hit rl key t) # fst (hits (snd (hit rl key t)) key ts)"
  "snd (hits rl key (t # ts)) = snd (hits (snd (hit rl key t)) key ts)"
  by (simp_all add: split_beta)

lemma hits_append:
  "fst (hits rl key (xs @ ys)) = fst (hits rl key xs) @ fst (hits (snd (hits rl key xs)) key ys)"
  "snd (hits rl key (xs @ ys)) = snd (hits (snd (hits rl key xs)) key ys)"
  by (induction xs arbitrary: rl) (simp_all add: hits_Cons del: hits.simps(2))

lemma hits_admit_all:
  "\<lbrakk> setdefault_bucket rl key = b;
     \<forall>t\<in>set ts. \<forall>x\<in>set (b @ ts). \<not> float_gt_int (float_sub t x) (window_seconds rl);
     int (length b) + int (length ts) \<le> limit rl \<rbrakk>
   \<Longrightarrow> fst (hits rl key ts) = replicate (length ts) (Inr ())
     \<and> setdefault_bucket (snd (hits rl key ts)) key = b @ ts
     \<and> limit (snd (hits rl key ts)) = limit rl
     \<and> window_seconds (snd (hits rl key ts)) = window_seconds rl"
proof (induction ts arbitrary: rl b)
  case Nil
  then show ?case by simp
next
  case (Cons t ts)
  let ?rl' = "snd (hit rl key t)"
  have p: "prune t (window_seconds rl) b = b"
    using Cons.prems(2) by (intro prune_id) auto
  have ok: "fst (hit rl key t) = Inr ()"
    using Cons.prems(1,3) p by (simp add: hit_fst)
  have b': "setdefault_bucket ?rl' key = b @ [t]"
    using Cons.prems(1,3) p by (simp add: hit_bucket)
  have cfg: "limit ?rl' = limit rl" "window_seconds ?rl' = window_seconds rl"
    by (simp_all add: hit_config)
  have "fst (hits ?rl' key ts) = replicate (length ts) (Inr ())
     \<and> setdefault_bucket (snd (hits ?rl' key ts)) key = (b @ [t]) @ ts
     \<and> limit (snd (hits ?rl' key ts)) = limit ?rl'
     \<and> window_seconds (snd (hits ?rl' key ts)) = window_seconds ?rl'"
  proof (rule Cons.IH [OF b'])
    show "\<forall>ta\<in>set ts. \<forall>x\<in>set ((b @ [t]) @ ts). \<not> float_gt_int (float_sub ta x) (window_seconds ?rl')"
      using Cons.prems(2) by (auto simp: cfg)
    show "int (length (b @ [t])) + int (length ts) \<le> limit ?rl'"
      using Cons.prems(3) by (simp add: cfg)
  qed
  then show ?case
    using ok cfg by (simp add: hits_Cons del: hits.simps)
qed

lemma sorted_le_last: "sorted ts \<Longrightarrow> t \<in> set ts \<Longrightarrow> t \<le> (last ts :: int)"
  by (induction ts) auto

lemma sorted_hd_le: "sorted ts \<Longrightarrow> x \<in> set ts \<Longrightarrow> (hd ts :: int) \<le> x"
  by (cases ts) auto

lemma sorted_span:
  assumes "sorted ts" "\<not> float_gt_int (float_sub (last ts) (hd ts)) w" "t \<in> set ts" "x \<in> set ts"
  shows "\<not> float_gt_int (float_sub t x) w"
proof -
  have "float_sub t x \<le> float_sub (last ts) (hd ts)"
    using sorted_le_last [OF assms(1,3)] sorted_hd_le [OF assms(1,4)] by (rule float_sub_mono)
  then show ?thesis
    using assms(2) float_gt_int_mono by blast
qed

lemma hit_single_call:
  assumes "sorted (setdefault_bucket rl key)"
  shows "hit rl key now =
     (let kept = filter (\<lambda>t. \<not> float_gt_int (float_sub now t) (window_seconds rl)) (setdefault_bucket rl key)
      in if limit rl \<le> int (length kept)
         then (Inl rate_limit_exceeded, rl\<lparr>calls := (calls rl)(key \<mapsto> kept)\<rparr>)
         else (Inr (), rl\<lparr>calls := (calls rl)(key \<mapsto> kept @ [now])\<rparr>))"
  by (simp add: hit_def prune_filter_sorted [OF assms])

lemma hit_keeps_order:
  assumes "sorted (setdefault_bucket rl key)" "\<forall>t\<in>set (setdefault_bucket rl key). t \<le> now"
  shows "sorted (setdefault_bucket (snd (hit rl key now)) key)
       \<and> (\<forall>t\<in>set (setdefault_bucket (snd (hit rl key now)) key). t \<le> now)"
proof -
  let ?b = "prune now (window_seconds rl) (setdefault_bucket rl key)"
  have s: "sorted ?b" using assms(1) by (rule prune_sorted)
  have le: "\<forall>t\<in>set ?b. t \<le> now" using assms(2) set_prune by blast
  show ?thesis
    using s le by (simp add: hit_bucket Let_def sorted_append)
qed

lemma hits_window:
  assumes lim: "limit rl = int L"
    and empty: "setdefault_bucket rl key = []"
    and srt: "sorted ts"
    and len: "length ts = Suc L"
    and span: "\<not> float_gt_int (float_sub (last ts) (hd ts)) (window_seconds rl)"
  shows "fst (hits rl key ts) = replicate L (Inr ()) @ [Inl rate_limit_exceeded]"
    and "0 < L \<Longrightarrow> float_gt_int (float_sub t' (hd ts)) (window_seconds rl)
          \<Longrightarrow> fst (hit (snd (hits rl key ts)) key t') = Inr ()"
proof -
  obtain ts0 tl where ts: "ts = ts0 @ [tl]" and len0: "length ts0 = L"
    using len by (metis length_Suc_conv_rev nat.inject)
  have within: "\<forall>t\<in>set ts. \<forall>x\<in>set ts. \<not> float_gt_int (float_sub t x) (window_seconds rl)"
    using sorted_span [OF srt span] by blast
  let ?rl1 = "snd (hits rl key ts0)"
  have first: "fst (hits rl key ts0) = replicate (length ts0) (Inr ())
     \<and> setdefault_bucket ?rl1 key = [] @ ts0
     \<and> limit ?rl1 = limit rl \<and> window_seconds ?rl1 = window_seconds rl"
  proof (rule hits_admit_all [OF empty])
    show "\<forall>t\<in>set ts0. \<forall>x\<in>set ([] @ ts0). \<not> float_gt_int (float_sub t x) (window_seconds rl)"
      using within ts by simp
    show "int (length []) + int (length ts0) \<le> limit rl"
      using lim len0 by simp
  qed
  have p: "prune tl (window_seconds ?rl1) ts0 = ts0"
    using within ts first by (intro prune_id) simp
  have rejected: "fst (hit ?rl1 key tl) = Inl rate_limit_exceeded"
    using first p lim len0 by (simp add: hit_fst)
  let ?rl2 = "snd (hit ?rl1 key tl)"
  have b2: "setdefault_bucket ?rl2 key = ts0"
    using first p lim len0 by (simp add: hit_bucket)
  have cfg2: "limit ?rl2 = int L" "window_seconds ?rl2 = window_seconds rl"
    using first lim by (simp_all add: hit_config)
  have run: "fst (hits rl key ts) = fst (hits rl key ts0) @ [fst (hit ?rl1 key tl)]"
    "snd (hits rl key ts) = ?rl2"
    unfolding ts by (simp_all add: hits_append hits_Cons del: hits.simps(2))
  show "fst (hits rl key ts) = replicate L (Inr ()) @ [Inl rate_limit_exceeded]"
    using run(1) first rejected len0 by simp
  show "fst (hit (snd (hits rl key ts)) key t') = Inr ()"
    if pos: "0 < L" and late: "float_gt_int (float_sub t' (hd ts)) (window_seconds rl)"
  proof -
    obtain t0 rest where ts0: "ts0 = t0 # rest"
      using pos len0 by (cases ts0) auto
    have "hd ts = t0" using ts ts0 by simp
    then have "prune t' (window_seconds rl) ts0 = prune t' (window_seconds rl) rest"
      using late ts0 by simp
    then have "length (prune t' (window_seconds rl) ts0) \<le> length rest"
      by (simp add: length_prune)
    then have "int (length (prune t' (window_seconds rl) ts0)) < int L"
      using ts0 len0 by auto
    then show ?thesis
      using b2 cfg2 run(2) by (simp add: hit_fst)
  qed
qed

lemma prune_all_old: "\<forall>x\<in>set b. float_gt_int (float_sub now x) w \<Longrightarrow> prune now w b = []"
  by (induction b) auto

lemma hit_stale_bucket:
  assumes "\<forall>x\<in>set (setdefault_bucket rl key). float_gt_int (float_sub now x) (window_seconds rl)"
  shows "hit rl key now = hit (rl\<lparr>calls := (calls rl)(key \<mapsto> [])\<rparr>) key now"
proof -
  have "prune now (window_seconds rl) (setdefault_bucket rl key) = []"
    using assms by (rule prune_all_old)
  then show ?thesis
    by (simp add: hit_def setdefault_bucket_def)
qed

lemma hits_stale_bucket:
  assumes "ts \<noteq> []"
    and "\<forall>x\<in>set (setdefault_bucket rl key). float_gt_int (float_sub (hd ts) x) (window_seconds rl)"
  shows "hits rl key ts = hits (rl\<lparr>calls := (calls rl)(key \<mapsto> [])\<rparr>) key ts"
proof -
  obtain t rest where ts: "ts = t # rest"
    using assms(1) by (cases ts) auto
  have "hit rl key t = hit (rl\<lparr>calls := (calls rl)(key \<mapsto> [])\<rparr>) key t"
    using assms(2) by (intro hit_stale_bucket) (simp add: ts)
  then show ?thesis
    by (simp add: ts)
qed

lemma hits_window_stale:
  assumes lim: "limit rl = int L"
    and stale: "\<forall>x\<in>set (setdefault_bucket rl key). float_gt_int (float_sub (hd ts) x) (window_seconds rl)"
    and srt: "sorted ts"
    and len: "length ts = Suc L"
    and span: "\<not> float_gt_int (float_sub (last ts) (hd ts)) (window_seconds rl)"
  shows "fst (hits rl key ts) = replicate L (Inr ()) @ [Inl rate_limit_exceeded]"
    and "0 < L \<Longrightarrow> float_gt_int (float_sub t' (hd ts)) (window_seconds rl)
          \<Longrightarrow> fst (hit (snd (hits rl key ts)) key t') = Inr ()"
proof -
  let ?rl = "rl\<lparr>calls := (calls rl)(key \<mapsto> [])\<rparr>"
  have ne: "ts \<noteq> []" using len by auto
  have same: "hits rl key ts = hits ?rl key ts"
    using ne stale by (rule hits_stale_bucket)
  have lim': "limit ?rl = int L" and empty: "setdefault_bucket ?rl key = []"
    and span': "\<not> float_gt_int (float_sub (last ts) (hd ts)) (window_seconds ?rl)"
    using lim span by (simp_all add: setdefault_bucket_def)
  show "fst (hits rl key ts) = replicate L (Inr ()) @ [Inl rate_limit_exceeded]"
    unfolding same by (rule hits_window(1) [OF lim' empty srt len span'])
  show "fst (hit (snd (hits rl key ts)) key t') = Inr ()"
    if "0 < L" "float_gt_int (float_sub t' (hd ts)) (window_seconds rl)"
    unfolding same using that by (intro hits_window(2) [OF lim' empty srt len span']) simp_all
qed

text \<open>
  The claim as stated, with ages measured exactly, fails at a rounding boundary. Limit 1
  and window 60; the first call is at the double \<^verbatim>\<open>0.1\<close>, the second at the double
  \<^verbatim>\<open>60.1\<close>. The first reading is older than \<^verbatim>\<open>now - 60\<close>, both exactly and
  with that difference rounded, and the clock has advanced past 60 seconds since it, by
  \<^verbatim>\<open>51 * 2 ** -55\<close>. But the code's difference \<^verbatim>\<open>60.1 - 0.1\<close> rounds to
  \<^verbatim>\<open>60.0\<close>, which is not greater than 60: the old reading is kept and the second
  call is rejected.
\<close>

theorem hit_exact_window_counterexample:
  "double 3602879701896397 (- 55) < double 8458323050155213 (- 47) - double 60 0
   \<and> double 3602879701896397 (- 55) < float_sub (double 8458323050155213 (- 47)) (double 60 0)
   \<and> double 8458323050155213 (- 47) - double 3602879701896397 (- 55) = double 60 0 + double 51 (- 55)
   \<and> float_sub (double 8458323050155213 (- 47)) (double 3602879701896397 (- 55)) = double 60 0
   \<and> hits \<lparr>limit = 1, window_seconds = 60, calls = Map.empty\<rparr> ''k''
        [double 3602879701896397 (- 55), double 8458323050155213 (- 47)]
       = ([Inr (), Inl rate_limit_exceeded],
          \<lparr>limit = 1, window_seconds = 60, calls = [''k'' \<mapsto> [double 3602879701896397 (- 55)]]\<rparr>)"
proof -
  let ?a = "double 3602879701896397 (- 55)" and ?b = "double 8458323050155213 (- 47)"
  have b: "?b = double 2165330700839734528 (- 55)"
    using double_shift [of "- 55" "- 47" 8458323050155213] by simp
  have w: "double 60 0 = double 2161727821137838080 (- 55)"
    using double_shift [of "- 55" 0 60] by simp
  have r1: "round_double 14073748835533 = 14073748835533"
    by (rule round_double_exact) simp
  have "round_magnitude 2161727821137838131 = 2161727821137838080"
    by (subst round_magnitude_at [where s = 8]) simp_all
  then have r2: "round_double 2161727821137838131 = 2161727821137838080"
    using round_double_nat [of 2161727821137838131] by simp
  have "float_sub ?b (double 60 0) = double 14073748835533 (- 47)"
    by (simp add: float_sub_double2 r1)
  also have "\<dots> = double 3602879701896448 (- 55)"
    using double_shift [of "- 55" "- 47" 14073748835533] by simp
  finally have s1: "float_sub ?b (double 60 0) = double 3602879701896448 (- 55)" .
  have s2: "float_sub ?b ?a = double 60 0"
    by (simp add: float_sub_double r2 w)
  have "?a < ?b - double 60 0"
    unfolding b w by (simp add: double_def)
  moreover have "?a < float_sub ?b (double 60 0)"
    unfolding s1 by (simp add: double_less_iff)
  moreover have "?b - ?a = double 60 0 + double 51 (- 55)"
    unfolding b w by (simp add: double_def)
  moreover have "hits \<lparr>limit = 1, window_seconds = 60, calls = Map.empty\<rparr> ''k'' [?a, ?b]
       = ([Inr (), Inl rate_limit_exceeded],
          \<lparr>limit = 1, window_seconds = 60, calls = [''k'' \<mapsto> [?a]]\<rparr>)"
    by (simp add: hit_def setdefault_bucket_def s2 float_gt_int_double)
  ultimately show ?thesis
    using s2 by blast
qed

text \<open>
  Claim C1, with the age of a timestamp as the code computes it: the float difference
  \<^verbatim>\<open>now - t\<close>, rounded to the nearest double, compared with the window. One call
  of \<open>hit\<close> on a bucket that is in chronological order (as the spec's data model has
  it, and as every call leaves it under a monotonic clock) drops all timestamps whose
  age exceeds \<open>window_seconds\<close>; if at least \<open>limit\<close> remain it fails with the
  429 error and stores the pruned bucket without appending; otherwise it appends
  \<open>now\<close> and succeeds. Consequently, with limit \<open>L\<close> and a bucket that is empty or
  holds only timestamps older than the window, any \<open>L + 1\<close> successive calls whose
  clock readings span at most the window (the rounded difference of the last and the
  first does not exceed it) give \<open>L\<close> successes followed by one rate-limit failure,
  and a further call at which the age of the oldest admitted call exceeds the window
  succeeds.
\<close>

theorem hit_sliding_window:
  "(sorted (setdefault_bucket rl key) \<longrightarrow>
      hit rl key now =
        (let kept = filter (\<lambda>t. \<not> float_gt_int (float_sub now t) (window_seconds rl))
                      (setdefault_bucket rl key)
         in if limit rl \<le> int (length kept)
            then (Inl rate_limit_exceeded, rl\<lparr>calls := (calls rl)(key \<mapsto> kept)\<rparr>)
            else (Inr (), rl\<lparr>calls := (calls rl)(key \<mapsto> kept @ [now])\<rparr>)))
   \<and> (sorted (setdefault_bucket rl key) \<and> (\<forall>t\<in>set (setdefault_bucket rl key). t \<le> now) \<longrightarrow>
        sorted (setdefault_bucket (snd (hit rl key now)) key)
        \<and> (\<forall>t\<in>set (setdefault_bucket (snd (hit rl key now)) key). t \<le> now))
   \<and> (limit rl = int L
        \<and> (\<forall>x\<in>set (setdefault_bucket rl key). float_gt_int (float_sub (hd ts) x) (window_seconds rl))
        \<and> sorted ts \<and> length ts = Suc L
        \<and> \<not> float_gt_int (float_sub (last ts) (hd ts)) (window_seconds rl) \<longrightarrow>
        fst (hits rl key ts) = replicate L (Inr ()) @ [Inl rate_limit_exceeded]
        \<and> (0 < L \<and> float_gt_int (float_sub t' (hd ts)) (window_seconds rl) \<longrightarrow>
             fst (hit (snd (hits rl key ts)) key t') = Inr ()))"
proof (intro conjI impI)
  assume "sorted (setdefault_bucket rl key)"
  then show "hit rl key now =
        (let kept = filter (\<lambda>t. \<not> float_gt_int (float_sub now t) (window_seconds rl))
                      (setdefault_bucket rl key)
         in if limit rl \<le> int (length kept)
            then (Inl rate_limit_exceeded, rl\<lparr>calls := (calls rl)(key \<mapsto> kept)\<rparr>)
            else (Inr (), rl\<lparr>calls := (calls rl)(key \<mapsto> kept @ [now])\<rparr>))"
    by (rule hit_single_call)
next
  assume a: "sorted (setdefault_bucket rl key) \<and> (\<forall>t\<in>set (setdefault_bucket rl key). t \<le> now)"
  from a show "sorted (setdefault_bucket (snd (hit rl key now)) key)"
    using hit_keeps_order by blast
  from a show "\<forall>t\<in>set (setdefault_bucket (snd (hit rl key now)) key). t \<le> now"
    using hit_keeps_order by blast
next
  assume a: "limit rl = int L
        \<and> (\<forall>x\<in>set (setdefault_bucket rl key). float_gt_int (float_sub (hd ts) x) (window_seconds rl))
        \<and> sorted ts \<and> length ts = Suc L
        \<and> \<not> float_gt_int (float_sub (last ts) (hd ts)) (window_seconds rl)"
  from a show "fst (hits rl key ts) = replicate L (Inr ()) @ [Inl rate_limit_exceeded]"
    using hits_window_stale(1) by blast
  assume b: "0 < L \<and> float_gt_int (float_sub t' (hd ts)) (window_seconds rl)"
  from a b show "fst (hit (snd (hits rl key ts)) key t') = Inr ()"
    using hits_window_stale(2) by blast
qed

theorem hit_sliding_window_witness:
  "hit \<lparr>limit = 2, window_seconds = 10, calls = [''alice'' \<mapsto> [double 0 0, double 3 0]]\<rparr>
       ''alice'' (double 12 0)
     = (Inr (), \<lparr>limit = 2, window_seconds = 10, calls = [''alice'' \<mapsto> [double 3 0, double 12 0]]\<rparr>)
   \<and> sorted (setdefault_bucket
        (snd (hit \<lparr>limit = 2, window_seconds = 10, calls = [''alice'' \<mapsto> [double 0 0, double 3 0]]\<rparr>
                ''alice'' (double 12 0))) ''alice'')
   \<and> fst (hits \<lparr>limit = 1, window_seconds = 60, calls = [''alice'' \<mapsto> [double (- 100) 0]]\<rparr> ''alice''
        [double 3602879701896397 (- 55), double 8458323050155213 (- 47)])
       = [Inr (), Inl rate_limit_exceeded]
   \<and> fst (hit (snd (hits \<lparr>limit = 1, window_seconds = 60, calls = [''alice'' \<mapsto> [double (- 100) 0]]\<rparr>
                      ''alice'' [double 3602879701896397 (- 55), double 8458323050155213 (- 47)]))
            ''alice'' (double 8458323050155214 (- 47))) = Inr ()"
proof -
  let ?rl1 = "\<lparr>limit = 2, window_seconds = 10, calls = [''alice'' \<mapsto> [double 0 0, double 3 0]]\<rparr>"
  let ?rl0 = "\<lparr>limit = 1, window_seconds = 60, calls = [''alice'' \<mapsto> [double (- 100) 0]]\<rparr>"
  let ?a = "double 3602879701896397 (- 55)" and ?b = "double 8458323050155213 (- 47)"
  let ?c = "double 8458323050155214 (- 47)"
  have b1: "setdefault_bucket ?rl1 ''alice'' = [double 0 0, double 3 0]"
    by (simp add: setdefault_bucket_def)
  have b0: "setdefault_bucket ?rl0 ''alice'' = [double (- 100) 0]"
    by (simp add: setdefault_bucket_def)
  have exact: "round_double 12 = 12" "round_double 9 = 9"
    by (rule round_double_exact, simp)+
  have age: "float_sub (double 12 0) (double 0 0) = double 12 0"
    "float_sub (double 12 0) (double 3 0) = double 9 0"
    by (simp_all add: float_sub_double exact)
  have srt1: "sorted [double 0 0, double 3 0]"
    by (simp add: double_le_iff)
  have r: "round_double 3602879701896397 = 3602879701896397"
    by (rule round_double_exact) simp
  have "round_magnitude 3606482581598293197 = 3606482581598292992"
    by (subst round_magnitude_at [where s = 9]) simp_all
  then have r100: "round_double 3606482581598293197 = 3606482581598292992"
    using round_double_nat [of 3606482581598293197] by simp
  have "round_magnitude 2161727821137838131 = 2161727821137838080"
    by (subst round_magnitude_at [where s = 8]) simp_all
  then have r2: "round_double 2161727821137838131 = 2161727821137838080"
    using round_double_nat [of 2161727821137838131] by simp
  have "round_magnitude 2161727821137838387 = 2161727821137838336"
    by (subst round_magnitude_at [where s = 8]) simp_all
  then have r3: "round_double 2161727821137838387 = 2161727821137838336"
    using round_double_nat [of 2161727821137838387] by simp
  have stale: "float_gt_int (float_sub ?a (double (- 100) 0)) 60"
    by (simp add: float_sub_double2 r100 float_gt_int_double)
  have span: "\<not> float_gt_int (float_sub ?b ?a) 60"
    by (simp add: float_sub_double r2 float_gt_int_double)
  have late: "float_gt_int (float_sub ?c ?a) 60"
    by (simp add: float_sub_double r3 float_gt_int_double)
  have "?b = double 2165330700839734528 (- 55)"
    using double_shift [of "- 55" "- 47" 8458323050155213] by simp
  then have srt: "sorted [?a, ?b]"
    by (simp add: double_le_iff)
  note one = hit_sliding_window [where rl = ?rl1 and key = "''alice''" and now = "double 12 0"
      and L = 0 and ts = "[]"]
  note run = hit_sliding_window [where rl = ?rl0 and key = "''alice''" and now = "double 0 0"
      and L = 1 and ts = "[?a, ?b]" and t' = ?c]
  have "hit ?rl1 ''alice'' (double 12 0)
      = (Inr (), \<lparr>limit = 2, window_seconds = 10, calls = [''alice'' \<mapsto> [double 3 0, double 12 0]]\<rparr>)"
    using one srt1 by (simp add: b1 age float_gt_int_double)
  moreover have "sorted (setdefault_bucket (snd (hit ?rl1 ''alice'' (double 12 0))) ''alice'')"
    using one srt1 by (simp add: b1 age float_gt_int_double double_le_iff setdefault_bucket_def)
  moreover have "fst (hits ?rl0 ''alice'' [?a, ?b]) = [Inr (), Inl rate_limit_exceeded]"
    using run stale span srt by (simp add: b0 del: hits.simps)
  moreover have "fst (hit (snd (hits ?rl0 ''alice'' [?a, ?b])) ''alice'' ?c) = Inr ()"
    using run stale span srt late by (simp add: b0 del: hits.simps)
  ultimately show ?thesis by blast
qed

section \<open>Properties of the connection registry\<close>

lemma count_list_remove1: "count_list (remove1 c xs) c = count_list xs c - 1"
  by (induction xs) auto

lemma length_remove1_mem: "c \<in> set xs \<Longrightarrow> length (remove1 c xs) = length xs - 1"
  by (simp add: length_remove1)

lemma once_then_absent: "count_list xs c = 1 \<Longrightarrow> c \<in> set xs \<and> c \<notin> set (remove1 c xs)"
proof
  assume one: "count_list xs c = 1"
  show "c \<in> set xs"
    using one count_list_0_iff [of xs c] by simp
  have "count_list (remove1 c xs) c = 0"
    using one by (simp add: count_list_remove1)
  then show "c \<notin> set (remove1 c xs)"
    using count_list_0_iff by fastforce
qed

text \<open>
  Claim C7, as the code has it. \<open>disconnect\<close> removes the first registration of a
  connection that is registered, and the registry shrinks by one; for a connection that is
  absent it raises \<open>ValueError\<close> and leaves the registry as it was. So a second call
  for a connection that was registered once raises \<open>ValueError\<close>.
\<close>

theorem disconnect_first_occurrence:
  "(c \<in> set (active_connections m) \<longrightarrow>
      disconnect m c = (Inr (), m\<lparr>active_connections := remove1 c (active_connections m)\<rparr>)
      \<and> length (active_connections (snd (disconnect m c))) = length (active_connections m) - 1)
   \<and> (c \<notin> set (active_connections m) \<longrightarrow> disconnect m c = (Inl ValueError, m))
   \<and> (count_list (active_connections m) c = 1 \<longrightarrow>
        fst (disconnect m c) = Inr ()
        \<and> disconnect (snd (disconnect m c)) c = (Inl ValueError, snd (disconnect m c)))"
proof (intro conjI impI)
  assume "count_list (active_connections m) c = 1"
  then have "c \<in> set (active_connections m) \<and> c \<notin> set (remove1 c (active_connections m))"
    by (rule once_then_absent)
  then show "fst (disconnect m c) = Inr ()"
    and "disconnect (snd (disconnect m c)) c = (Inl ValueError, snd (disconnect m c))"
    by (simp_all add: disconnect_def)
qed (simp_all add: disconnect_def length_remove1_mem)

theorem disconnect_first_occurrence_witness:
  "disconnect \<lparr>active_connections = [1, 2, 1]\<rparr> 1 = (Inr (), \<lparr>active_connections = [2, 1]\<rparr>)
   \<and> length (active_connections (snd (disconnect \<lparr>active_connections = [1, 2, 1]\<rparr> 1))) = 2
   \<and> disconnect \<lparr>active_connections = [1, 2, 1]\<rparr> 3 = (Inl ValueError, \<lparr>active_connections = [1, 2, 1]\<rparr>)
   \<and> fst (disconnect \<lparr>active_connections = [1, 2, 1]\<rparr> 2) = Inr ()
   \<and> disconnect (snd (disconnect \<lparr>active_connections = [1, 2, 1]\<rparr> 2)) 2
       = (Inl ValueError, \<lparr>active_connections = [1, 1]\<rparr>)"
proof -
  let ?m = "\<lparr>active_connections = [1, 2, 1 :: nat]\<rparr>"
  note a = disconnect_first_occurrence [where m = ?m and c = 1]
  note b = disconnect_first_occurrence [where m = ?m and c = 3]
  note c = disconnect_first_occurrence [where m = ?m and c = 2]
  have "disconnect ?m 1 = (Inr (), \<lparr>active_connections = [2, 1]\<rparr>)"
    using a by simp
  moreover have "length (active_connections (snd (disconnect ?m 1))) = 2"
    using a by simp
  moreover have "disconnect ?m 3 = (Inl ValueError, ?m)"
    using b by simp
  moreover have "fst (disconnect ?m 2) = Inr ()"
    using c by simp
  moreover have "disconnect (snd (disconnect ?m 2)) 2 = (Inl ValueError, \<lparr>active_connections = [1, 1]\<rparr>)"
    using c by (simp add: disconnect_def)
  ultimately show ?thesis by blast
qed

text \<open>
  Claim C7 as stated fails: the connection 1 is registered, unregistered once, and the
  second call raises.
\<close>

theorem disconnect_twice_counterexample:
  "fst (disconnect \<lparr>active_connections = [1, 2]\<rparr> 1) = Inr ()
   \<and> fst (disconnect (snd (disconnect \<lparr>active_connections = [1, 2]\<rparr> 1)) 1) = Inl ValueError"
  by (simp add: disconnect_def)

lemma send_text_writable:
  "writable ws \<Longrightarrow> send_text ws msg = (Inr (), ws\<lparr>wire := wire ws @ [Send_text msg]\<rparr>)"
  by (simp add: send_text_def ws_do_def)

lemma send_text_unwritable: "\<not> writable ws \<Longrightarrow> send_text ws msg = (Inl SendError, ws)"
  by (simp add: send_text_def)

lemma broadcast_loop_all_writable:
  "\<forall>c\<in>set cs. writable (socks c) \<Longrightarrow>
   broadcast_loop cs socks msg =
     (Inr (), \<lambda>x. (socks x)\<lparr>wire := wire (socks x) @ replicate (count_list cs x) (Send_text msg)\<rparr>)"
proof (induction cs arbitrary: socks)
  case Nil
  then show ?case by simp
next
  case (Cons c cs)
  let ?socks' = "socks(c := (socks c)\<lparr>wire := wire (socks c) @ [Send_text msg]\<rparr>)"
  have "\<forall>x\<in>set cs. writable (?socks' x)"
    using Cons.prems by simp
  then have "broadcast_loop cs ?socks' msg =
     (Inr (), \<lambda>x. (?socks' x)\<lparr>wire := wire (?socks' x) @ replicate (count_list cs x) (Send_text msg)\<rparr>)"
    by (rule Cons.IH)
  moreover have "send_text (socks c) msg = (Inr (), (socks c)\<lparr>wire := wire (socks c) @ [Send_text msg]\<rparr>)"
    using Cons.prems by (simp add: send_text_writable)
  ultimately show ?case
    by (auto simp: fun_eq_iff)
qed

lemma broadcast_loop_append:
  "broadcast_loop (xs @ ys) socks msg =
     (case broadcast_loop xs socks msg of
        (Inl e, socks') \<Rightarrow> (Inl e, socks')
      | (Inr _, socks') \<Rightarrow> broadcast_loop ys socks' msg)"
  by (induction xs arbitrary: socks) (auto split: prod.splits sum.splits)

lemma broadcast_loop_stops:
  assumes "\<forall>x\<in>set pre. writable (socks x)" "\<not> writable (socks c)"
  shows "broadcast_loop (pre @ c # post) socks msg =
     (Inl SendError, \<lambda>x. (socks x)\<lparr>wire := wire (socks x) @ replicate (count_list pre x) (Send_text msg)\<rparr>)"
proof -
  let ?socks' = "\<lambda>x. (socks x)\<lparr>wire := wire (socks x) @ replicate (count_list pre x) (Send_text msg)\<rparr>"
  have "broadcast_loop pre socks msg = (Inr (), ?socks')"
    using assms(1) by (rule broadcast_loop_all_writable)
  moreover have "send_text (?socks' c) msg = (Inl SendError, ?socks' c)"
    using assms(2) by (simp add: send_text_unwritable)
  ultimately show ?thesis
    by (simp add: broadcast_loop_append fun_eq_iff)
qed

text \<open>
  Claim C8, as the code has it. \<open>broadcast\<close> writes the payload to the registered
  connections in registration order and stops at the first write that fails: the
  connections before it have received the payload, the exception reaches the caller, and
  every other connection is left untouched. When no write fails, every registered
  connection receives the payload (once per registration).
\<close>

theorem broadcast_stops_at_first_failure:
  "((\<forall>c\<in>set (active_connections m). writable (socks c)) \<longrightarrow>
      broadcast m socks msg =
        (Inr (), \<lambda>x. (socks x)\<lparr>wire := wire (socks x)
                         @ replicate (count_list (active_connections m) x) (Send_text msg)\<rparr>))
   \<and> (active_connections m = pre @ c # post \<and> (\<forall>x\<in>set pre. writable (socks x))
        \<and> \<not> writable (socks c) \<longrightarrow>
        broadcast m socks msg =
          (Inl SendError, \<lambda>x. (socks x)\<lparr>wire := wire (socks x)
                                 @ replicate (count_list pre x) (Send_text msg)\<rparr>))"
  by (simp add: broadcast_def broadcast_loop_all_writable broadcast_loop_stops)


theorem broadcast_stops_at_first_failure_witness:
  "fst (broadcast \<lparr>active_connections = [1, 2]\<rparr> (\<lambda>c. new_websocket c True) (Text ''hello'')) = Inr ()
   \<and> wire (snd (broadcast \<lparr>active_connections = [1, 2]\<rparr> (\<lambda>c. new_websocket c True) (Text ''hello'')) 2)
       = [Send_text (Text ''hello'')]
   \<and> fst (broadcast \<lparr>active_connections = [1, 2, 3]\<rparr> (\<lambda>c. new_websocket c (c \<noteq> 2)) (Text ''hello''))
       = Inl SendError
   \<and> wire (snd (broadcast \<lparr>active_connections = [1, 2, 3]\<rparr> (\<lambda>c. new_websocket c (c \<noteq> 2)) (Text ''hello'')) 1)
       = [Send_text (Text ''hello'')]
   \<and> wire (snd (broadcast \<lparr>active_connections = [1, 2, 3]\<rparr> (\<lambda>c. new_websocket c (c \<noteq> 2)) (Text ''hello'')) 3)
       = []"
proof -
  note ok = broadcast_stops_at_first_failure [where m = "\<lparr>active_connections = [1, 2]\<rparr>"
      and socks = "\<lambda>c. new_websocket c True" and msg = "Text ''hello''"
      and pre = "[]" and c = 0 and post = "[]"]
  note stop = broadcast_stops_at_first_failure [where m = "\<lparr>active_connections = [1, 2, 3]\<rparr>"
      and socks = "\<lambda>c. new_websocket c (c \<noteq> 2)" and msg = "Text ''hello''"
      and pre = "[1]" and c = 2 and post = "[3]"]
  have w: "\<And>c b. writable (new_websocket c b) = b" "\<And>c b. wire (new_websocket c b) = []"
    by (simp_all add: new_websocket_def)
  have "broadcast \<lparr>active_connections = [1, 2]\<rparr> (\<lambda>c. new_websocket c True) (Text ''hello'') =
      (Inr (), \<lambda>x. (new_websocket x True)\<lparr>wire := wire (new_websocket x True)
                       @ replicate (count_list [1, 2] x) (Send_text (Text ''hello''))\<rparr>)"
    using ok by (simp add: w)
  moreover have "broadcast \<lparr>active_connections = [1, 2, 3]\<rparr> (\<lambda>c. new_websocket c (c \<noteq> 2)) (Text ''hello'') =
      (Inl SendError, \<lambda>x. (new_websocket x (x \<noteq> 2))\<lparr>wire := wire (new_websocket x (x \<noteq> 2))
                       @ replicate (count_list [1] x) (Send_text (Text ''hello''))\<rparr>)"
    using stop by (simp add: w)
  ultimately show ?thesis
    by (simp add: w)
qed

text \<open>
  Claim C8 as stated fails: with the connections 1, 2 and 3 registered and connection 2
  refusing the write, connection 3 (registered and writable) is not sent the payload.
\<close>

theorem broadcast_best_effort_counterexample:
  "3 \<in> set (active_connections \<lparr>active_connections = [1, 2, 3]\<rparr>)
   \<and> writable (new_websocket 3 (3 \<noteq> (2::nat)))
   \<and> fst (broadcast \<lparr>active_connections = [1, 2, 3]\<rparr> (\<lambda>c. new_websocket c (c \<noteq> 2)) (Text ''hello''))
       = Inl SendError
   \<and> wire (snd (broadcast \<lparr>active_connections = [1, 2, 3]\<rparr> (\<lambda>c. new_websocket c (c \<noteq> 2)) (Text ''hello'')) 3)
       = []"
  by (simp add: broadcast_def send_text_def ws_do_def new_websocket_def)

section \<open>Properties of the token endpoint\<close>

lemma hit_rejects:
  "limit rl \<le> int (length (prune now (window_seconds rl) (setdefault_bucket rl key))) \<Longrightarrow>
   hit rl key now =
     (Inl rate_limit_exceeded,
      rl\<lparr>calls := (calls rl)(key \<mapsto> prune now (window_seconds rl) (setdefault_bucket rl key))\<rparr>)"
  by (simp add: hit_def)

lemma hit_admits:
  "\<not> limit rl \<le> int (length (prune now (window_seconds rl) (setdefault_bucket rl key))) \<Longrightarrow>
   hit rl key now =
     (Inr (),
      rl\<lparr>calls := (calls rl)(key \<mapsto> prune now (window_seconds rl) (setdefault_bucket rl key) @ [now])\<rparr>)"
  by (simp add: hit_def)

lemma compare_digest_ascii:
  "is_ascii a \<Longrightarrow> is_ascii b \<Longrightarrow> compare_digest a b = Inr (a = b)"
  by (simp add: compare_digest_def)

lemma compare_digest_non_ascii:
  "\<not> is_ascii a \<or> \<not> is_ascii b \<Longrightarrow> compare_digest a b = Inl TypeError"
  by (auto simp: compare_digest_def)

text \<open>
  The order of the steps of the endpoint: whenever the credential check does not return
  true, the limiter is left exactly as it was; a check that returns false gives the 400
  error; a check that raises lets its exception leave the endpoint; and with accepted
  credentials and a bucket that still holds at least \<open>limit\<close> timestamps after
  pruning, the endpoint fails with the 429 error, returns no token and appends nothing.
\<close>

lemma login_credentials_rejected:
  "authenticate_user pwd_verify cfg (username form_data) (password form_data) = Inr False \<Longrightarrow>
   login_for_access_token J pwd_verify cfg monotonic utcnow host rl form_data
     = (Inl (Http (HTTPException 400 ''Incorrect username or password'')), rl)"
  by (simp add: login_for_access_token_def)

lemma login_check_raises:
  "authenticate_user pwd_verify cfg (username form_data) (password form_data) = Inl e \<Longrightarrow>
   login_for_access_token J pwd_verify cfg monotonic utcnow host rl form_data
     = (Inl (Uncaught e), rl)"
  by (simp add: login_for_access_token_def)

lemma login_limiter_untouched:
  "authenticate_user pwd_verify cfg (username form_data) (password form_data) \<noteq> Inr True \<Longrightarrow>
   snd (login_for_access_token J pwd_verify cfg monotonic utcnow host rl form_data) = rl"
  by (cases "authenticate_user pwd_verify cfg (username form_data) (password form_data)")
     (auto simp: login_for_access_token_def)

lemma login_rate_limited:
  "authenticate_user pwd_verify cfg (username form_data) (password form_data) = Inr True \<Longrightarrow>
   limit rl \<le> int (length (prune monotonic (window_seconds rl)
                              (setdefault_bucket rl (key_or_client (username form_data) host)))) \<Longrightarrow>
   login_for_access_token J pwd_verify cfg monotonic utcnow host rl form_data
     = (Inl (Http rate_limit_exceeded),
        rl\<lparr>calls := (calls rl)(key_or_client (username form_data) host \<mapsto>
              prune monotonic (window_seconds rl)
                (setdefault_bucket rl (key_or_client (username form_data) host)))\<rparr>)"
  by (simp add: login_for_access_token_def hit_rejects)

text \<open>
  Claim C10, at an input where the code departs from it. Under the default settings
  (no password hash configured), a request for the service account with the wrong
  password spelt p, a-umlaut, s, s (code points 112, 228, 115, 115) does not fail with
  the 400 error: \<^verbatim>\<open>secrets.compare_digest\<close> raises \<^verbatim>\<open>TypeError\<close> on the non-ASCII
  character and the exception leaves the endpoint, to be answered with status 500. The
  limiter is left as it was. The wrong password \<^verbatim>\<open>"pass"\<close> fails with the 400
  error.
\<close>

theorem login_non_ascii_password_raises:
  "login_for_access_token sym_jose (\<lambda>p h. Inr False) default_config (double 5 0) 1000 None
       \<lparr>limit = 1, window_seconds = 60, calls = [''nphies_service'' \<mapsto> [double 2 0]]\<rparr>
       \<lparr>username = ''nphies_service'', password = [112, 228, 115, 115]\<rparr>
     = (Inl (Uncaught TypeError),
        \<lparr>limit = 1, window_seconds = 60, calls = [''nphies_service'' \<mapsto> [double 2 0]]\<rparr>)
   \<and> login_for_access_token sym_jose (\<lambda>p h. Inr False) default_config (double 5 0) 1000 None
       \<lparr>limit = 1, window_seconds = 60, calls = [''nphies_service'' \<mapsto> [double 2 0]]\<rparr>
       \<lparr>username = ''nphies_service'', password = [112, 97, 115, 115]\<rparr>
     = (Inl (Http (HTTPException 400 ''Incorrect username or password'')),
        \<lparr>limit = 1, window_seconds = 60, calls = [''nphies_service'' \<mapsto> [double 2 0]]\<rparr>)"
  by (simp add: login_for_access_token_def authenticate_user_def verify_password_def
      compare_digest_def is_ascii_def default_config_def)

section \<open>Properties of the WebSocket admission\<close>

lemma chat_except_socket: "snd (snd (chat_except e m ws)) = ws"
  by (simp add: chat_except_def split: prod.splits sum.splits)

lemma chat_loop_reads_first:
  "\<exists>acts. wire (snd (snd (chat_loop g td frames m ws))) = wire ws @ Receive_text # acts"
proof (induction frames arbitrary: ws)
  case Nil
  show ?case by (simp add: chat_except_socket ws_do_def)
next
  case (Cons f frames)
  obtain utcnow frame where f: "f = (utcnow, frame)" by (cases f)
  let ?ws1 = "ws_do Receive_text ws"
  show ?case
  proof (cases frame)
    case (Inl e)
    then show ?thesis by (simp add: f chat_except_socket ws_do_def)
  next
    case (Inr msg)
    show ?thesis
    proof (cases "g msg None")
      case (Inl e)
      then show ?thesis by (simp add: f Inr chat_except_socket ws_do_def)
    next
      case response: (Inr r)
      show ?thesis
      proof (cases "writable ?ws1")
        case False
        then show ?thesis
          by (simp add: f Inr response send_text_def chat_except_socket ws_do_def)
      next
        case True
        let ?ws2 = "ws_do (Send_text (Ai_response r utcnow (td_sub td))) ?ws1"
        obtain acts where "wire (snd (snd (chat_loop g td frames m ?ws2))) = wire ?ws2 @ Receive_text # acts"
          using Cons.IH by blast
        then show ?thesis
          using True by (simp add: f Inr response send_text_def ws_do_def)
      qed
    qed
  qed
qed

lemma secure_websocket_no_token:
  "falsy (resolve_token ws) \<Longrightarrow>
   secure_websocket J cfg monotonic utcnow rl ws = (Inl WebSocketDisconnect, rl, ws_do (Close 4401) ws)"
  by (simp add: secure_websocket_def falsy_def split: option.splits)

lemma secure_websocket_bad_token:
  "resolve_token ws = Some token \<Longrightarrow> token \<noteq> [] \<Longrightarrow> decode_token J cfg utcnow token = Inl e \<Longrightarrow>
   secure_websocket J cfg monotonic utcnow rl ws = (Inl WebSocketDisconnect, rl, ws_do (Close 4401) ws)"
  by (simp add: secure_websocket_def)

lemma secure_websocket_limited:
  "resolve_token ws = Some token \<Longrightarrow> token \<noteq> [] \<Longrightarrow> decode_token J cfg utcnow token = Inr td \<Longrightarrow>
   fst (hit rl (key_or_client (td_sub td) (client_host ws)) monotonic) = Inl e \<Longrightarrow>
   secure_websocket J cfg monotonic utcnow rl ws =
     (Inl WebSocketDisconnect, snd (hit rl (key_or_client (td_sub td) (client_host ws)) monotonic),
      ws_do (Close 4429) ws)"
  by (simp add: secure_websocket_def split_beta)

lemma secure_websocket_admitted:
  "resolve_token ws = Some token \<Longrightarrow> token \<noteq> [] \<Longrightarrow> decode_token J cfg utcnow token = Inr td \<Longrightarrow>
   fst (hit rl (key_or_client (td_sub td) (client_host ws)) monotonic) = Inr () \<Longrightarrow>
   secure_websocket J cfg monotonic utcnow rl ws =
     (Inr td, snd (hit rl (key_or_client (td_sub td) (client_host ws)) monotonic),
      ws\<lparr>scope_user := Some td\<rparr>)"
  by (simp add: secure_websocket_def split_beta)

lemma websocket_chat_admitted:
  assumes "resolve_token ws = Some token" "token \<noteq> []" "decode_token J cfg utcnow token = Inr td"
    "fst (hit rl (key_or_client (td_sub td) (client_host ws)) monotonic) = Inr ()"
  shows "websocket_chat J cfg g monotonic utcnow frames rl m ws =
     (let (m', ws') = connect m (ws\<lparr>scope_user := Some td\<rparr>);
          (raised, m'', ws'') = chat_loop g td frames m' ws'
      in (raised, snd (hit rl (key_or_client (td_sub td) (client_host ws)) monotonic), m'', ws''))"
    and "fst (connect m (ws\<lparr>scope_user := Some td\<rparr>))
           = m\<lparr>active_connections := active_connections m @ [conn_id ws]\<rparr>"
    and "\<exists>acts. wire (snd (snd (snd (websocket_chat J cfg g monotonic utcnow frames rl m ws))))
           = wire ws @ Accept # Receive_text # acts"
proof -
  let ?ws1 = "ws\<lparr>scope_user := Some td\<rparr>"
  let ?m' = "fst (connect m ?ws1)" and ?ws' = "snd (connect m ?ws1)"
  show run: "websocket_chat J cfg g monotonic utcnow frames rl m ws =
     (let (m', ws') = connect m ?ws1;
          (raised, m'', ws'') = chat_loop g td frames m' ws'
      in (raised, snd (hit rl (key_or_client (td_sub td) (client_host ws)) monotonic), m'', ws''))"
    by (simp add: websocket_chat_def secure_websocket_admitted [OF assms])
  show "?m' = m\<lparr>active_connections := active_connections m @ [conn_id ws]\<rparr>"
    by (simp add: connect_def ws_do_def)
  have w: "wire ?ws' = wire ws @ [Accept]"
    by (simp add: connect_def ws_do_def)
  obtain acts where "wire (snd (snd (chat_loop g td frames ?m' ?ws'))) = wire ?ws' @ Receive_text # acts"
    using chat_loop_reads_first by blast
  then have "wire (snd (snd (snd (websocket_chat J cfg g monotonic utcnow frames rl m ws))))
           = wire ws @ Accept # Receive_text # acts"
    by (simp add: run w split_beta)
  then show "\<exists>acts. wire (snd (snd (snd (websocket_chat J cfg g monotonic utcnow frames rl m ws))))
           = wire ws @ Accept # Receive_text # acts"
    by blast
qed

text \<open>
  Claim C6. The WebSocket handler runs the admission check first: the token is taken
  from the query parameter or a bearer header, validated, and the rate limiter consulted
  once. With no token, or with a token that fails validation, the handler's only
  operation on the socket is a close with code 4401, the limiter and the registry are
  untouched, and the handler returns. With a valid token that the limiter rejects, the
  only operation is a close with code 4429 and the registry is untouched. The two codes
  differ and neither is 1000. Only when the check succeeds is the socket accepted and
  registered, after exactly one call of the limiter, and reading starts after that.
\<close>

theorem websocket_admission_before_registration:
  "(falsy (resolve_token ws) \<longrightarrow>
      websocket_chat J cfg g monotonic utcnow frames rl m ws = (None, rl, m, ws_do (Close 4401) ws))
   \<and> (resolve_token ws = Some token \<and> token \<noteq> [] \<and> decode_token J cfg utcnow token = Inl e \<longrightarrow>
        websocket_chat J cfg g monotonic utcnow frames rl m ws = (None, rl, m, ws_do (Close 4401) ws))
   \<and> (resolve_token ws = Some token \<and> token \<noteq> [] \<and> decode_token J cfg utcnow token = Inr td
        \<and> fst (hit rl (key_or_client (td_sub td) (client_host ws)) monotonic) = Inl e' \<longrightarrow>
        websocket_chat J cfg g monotonic utcnow frames rl m ws
          = (None, snd (hit rl (key_or_client (td_sub td) (client_host ws)) monotonic), m,
             ws_do (Close 4429) ws))
   \<and> (resolve_token ws = Some token \<and> token \<noteq> [] \<and> decode_token J cfg utcnow token = Inr td
        \<and> fst (hit rl (key_or_client (td_sub td) (client_host ws)) monotonic) = Inr () \<longrightarrow>
        websocket_chat J cfg g monotonic utcnow frames rl m ws
          = (let (m', ws') = connect m (ws\<lparr>scope_user := Some td\<rparr>);
                 (raised, m'', ws'') = chat_loop g td frames m' ws'
             in (raised, snd (hit rl (key_or_client (td_sub td) (client_host ws)) monotonic), m'', ws''))
        \<and> fst (connect m (ws\<lparr>scope_user := Some td\<rparr>))
            = m\<lparr>active_connections := active_connections m @ [conn_id ws]\<rparr>
        \<and> (\<exists>acts. wire (snd (snd (snd (websocket_chat J cfg g monotonic utcnow frames rl m ws))))
                    = wire ws @ Accept # Receive_text # acts))
   \<and> wire (ws_do (Close 4401) ws) = wire ws @ [Close 4401]
   \<and> wire (ws_do (Close 4429) ws) = wire ws @ [Close 4429]
   \<and> Close 4401 \<noteq> Close 4429 \<and> Close 4401 \<noteq> Close 1000 \<and> Close 4429 \<noteq> Close 1000"
proof (intro conjI impI)
  assume "falsy (resolve_token ws)"
  then show "websocket_chat J cfg g monotonic utcnow frames rl m ws = (None, rl, m, ws_do (Close 4401) ws)"
    by (simp add: websocket_chat_def secure_websocket_no_token)
next
  assume "resolve_token ws = Some token \<and> token \<noteq> [] \<and> decode_token J cfg utcnow token = Inl e"
  then show "websocket_chat J cfg g monotonic utcnow frames rl m ws = (None, rl, m, ws_do (Close 4401) ws)"
    by (simp add: websocket_chat_def secure_websocket_bad_token)
next
  assume "resolve_token ws = Some token \<and> token \<noteq> [] \<and> decode_token J cfg utcnow token = Inr td
        \<and> fst (hit rl (key_or_client (td_sub td) (client_host ws)) monotonic) = Inl e'"
  then show "websocket_chat J cfg g monotonic utcnow frames rl m ws
          = (None, snd (hit rl (key_or_client (td_sub td) (client_host ws)) monotonic), m,
             ws_do (Close 4429) ws)"
    by (simp add: websocket_chat_def secure_websocket_limited)
next
  assume a: "resolve_token ws = Some token \<and> token \<noteq> [] \<and> decode_token J cfg utcnow token = Inr td
        \<and> fst (hit rl (key_or_client (td_sub td) (client_host ws)) monotonic) = Inr ()"
  from a show "websocket_chat J cfg g monotonic utcnow frames rl m ws
          = (let (m', ws') = connect m (ws\<lparr>scope_user := Some td\<rparr>);
                 (raised, m'', ws'') = chat_loop g td frames m' ws'
             in (raised, snd (hit rl (key_or_client (td_sub td) (client_host ws)) monotonic), m'', ws''))"
    using websocket_chat_admitted(1) by blast
  from a show "fst (connect m (ws\<lparr>scope_user := Some td\<rparr>))
            = m\<lparr>active_connections := active_connections m @ [conn_id ws]\<rparr>"
    using websocket_chat_admitted(2) by blast
  from a show "\<exists>acts. wire (snd (snd (snd (websocket_chat J cfg g monotonic utcnow frames rl m ws))))
                    = wire ws @ Accept # Receive_text # acts"
    using websocket_chat_admitted(3) by blast
qed (simp_all add: ws_do_def)

theorem websocket_admission_before_registration_witness:
  "websocket_chat (single_token_jose ''valid-token'' \<lparr>sub = Some ''alice'', scopes = None, exp_claim = None\<rparr>)
       default_config (\<lambda>msg c. Inr msg) (double 5 0) 1000 [(1000, Inr [104, 105])]
       \<lparr>limit = 1, window_seconds = 60, calls = [''alice'' \<mapsto> [double 2 0]]\<rparr>
       \<lparr>active_connections = [3]\<rparr> (new_websocket 7 True)
     = (None, \<lparr>limit = 1, window_seconds = 60, calls = [''alice'' \<mapsto> [double 2 0]]\<rparr>,
        \<lparr>active_connections = [3]\<rparr>, (new_websocket 7 True)\<lparr>wire := [Close 4401]\<rparr>)
   \<and> websocket_chat (single_token_jose ''valid-token'' \<lparr>sub = Some ''alice'', scopes = None, exp_claim = None\<rparr>)
       default_config (\<lambda>msg c. Inr msg) (double 5 0) 1000 [(1000, Inr [104, 105])]
       \<lparr>limit = 1, window_seconds = 60, calls = [''alice'' \<mapsto> [double 2 0]]\<rparr>
       \<lparr>active_connections = [3]\<rparr> ((new_websocket 7 True)\<lparr>query_token := Some ''forged''\<rparr>)
     = (None, \<lparr>limit = 1, window_seconds = 60, calls = [''alice'' \<mapsto> [double 2 0]]\<rparr>,
        \<lparr>active_connections = [3]\<rparr>,
        (new_websocket 7 True)\<lparr>query_token := Some ''forged'', wire := [Close 4401]\<rparr>)
   \<and> websocket_chat (single_token_jose ''valid-token'' \<lparr>sub = Some ''alice'', scopes = None, exp_claim = None\<rparr>)
       default_config (\<lambda>msg c. Inr msg) (double 5 0) 1000 [(1000, Inr [104, 105])]
       \<lparr>limit = 1, window_seconds = 60, calls = [''alice'' \<mapsto> [double 2 0]]\<rparr>
       \<lparr>active_connections = [3]\<rparr> ((new_websocket 7 True)\<lparr>authorization := Some ''Bearer valid-token''\<rparr>)
     = (None, \<lparr>limit = 1, window_seconds = 60, calls = [''alice'' \<mapsto> [double 2 0]]\<rparr>,
        \<lparr>active_connections = [3]\<rparr>,
        (new_websocket 7 True)\<lparr>authorization := Some ''Bearer valid-token'', wire := [Close 4429]\<rparr>)
   \<and> websocket_chat (single_token_jose ''valid-token'' \<lparr>sub = Some ''alice'', scopes = None, exp_claim = None\<rparr>)
       default_config (\<lambda>msg c. Inr msg) (double 5 0) 1000 [(1000, Inr [104, 105])]
       \<lparr>limit = 1, window_seconds = 60, calls = Map.empty\<rparr>
       \<lparr>active_connections = [3]\<rparr> ((new_websocket 7 True)\<lparr>authorization := Some ''Bearer valid-token''\<rparr>)
     = (None, \<lparr>limit = 1, window_seconds = 60, calls = [''alice'' \<mapsto> [double 5 0]]\<rparr>,
        \<lparr>active_connections = [3]\<rparr>,
        (new_websocket 7 True)\<lparr>authorization := Some ''Bearer valid-token'',
           scope_user := Some \<lparr>td_sub = ''alice'', td_scopes = []\<rparr>,
           wire := [Accept, Receive_text, Send_text (Ai_response [104, 105] 1000 ''alice''), Receive_text]\<rparr>)"
proof -
  let ?J = "single_token_jose ''valid-token'' \<lparr>sub = Some ''alice'', scopes = None, exp_claim = None\<rparr>"
  let ?g = "\<lambda>msg c. Inr msg :: py_exception + ustr"
  let ?frames = "[(1000, Inr [104, 105])] :: (int \<times> (py_exception + ustr)) list"
  let ?full = "\<lparr>limit = 1, window_seconds = 60, calls = [''alice'' \<mapsto> [double 2 0]]\<rparr>"
  let ?free = "\<lparr>limit = 1, window_seconds = 60, calls = Map.empty\<rparr>"
  let ?m = "\<lparr>active_connections = [3]\<rparr>"
  let ?a = "new_websocket 7 True"
  let ?b = "(new_websocket 7 True)\<lparr>query_token := Some ''forged''\<rparr>"
  let ?c = "(new_websocket 7 True)\<lparr>authorization := Some ''Bearer valid-token''\<rparr>"
  let ?td = "\<lparr>td_sub = ''alice'', td_scopes = []\<rparr>"
  have ra: "falsy (resolve_token ?a)"
    by (simp add: resolve_token_def falsy_def new_websocket_def)
  have rb: "resolve_token ?b = Some ''forged''"
    by (simp add: resolve_token_def falsy_def new_websocket_def)
  have low: "take 7 (lower ''Bearer valid-token'') = ''bearer ''"
    by code_simp
  have rc: "resolve_token ?c = Some ''valid-token''"
    by (simp add: resolve_token_def falsy_def new_websocket_def low after_first_space_def)
  have db: "decode_token ?J default_config 1000 ''forged'' = Inl credentials_exception"
    by (simp add: decode_token_def single_token_jose_def)
  have dc: "decode_token ?J default_config 1000 ''valid-token'' = Inr ?td"
    by (simp add: decode_token_def single_token_jose_def)
  have key: "key_or_client ''alice'' None = ''alice''"
    by (simp add: key_or_client_def)
  have "round_double 3 = 3"
    by (rule round_double_exact) simp
  then have age: "\<not> float_gt_int (float_sub (double 5 0) (double 2 0)) 60"
    by (simp add: float_sub_double float_gt_int_double)
  have hfull: "hit ?full ''alice'' (double 5 0) = (Inl rate_limit_exceeded, ?full)"
    by (simp add: hit_def setdefault_bucket_def age)
  have hfree: "hit ?free ''alice'' (double 5 0) = (Inr (), \<lparr>limit = 1, window_seconds = 60, calls = [''alice'' \<mapsto> [double 5 0]]\<rparr>)"
    by (simp add: hit_def setdefault_bucket_def)
  note A = websocket_admission_before_registration [where ws = ?a and J = ?J and cfg = default_config
      and g = ?g and monotonic = "double 5 0" and utcnow = 1000 and frames = ?frames and rl = ?full and m = ?m]
  note B = websocket_admission_before_registration [where ws = ?b and J = ?J and cfg = default_config
      and g = ?g and monotonic = "double 5 0" and utcnow = 1000 and frames = ?frames and rl = ?full and m = ?m
      and token = "''forged''" and e = credentials_exception]
  note C = websocket_admission_before_registration [where ws = ?c and J = ?J and cfg = default_config
      and g = ?g and monotonic = "double 5 0" and utcnow = 1000 and frames = ?frames and rl = ?full and m = ?m
      and token = "''valid-token''" and td = ?td and e' = rate_limit_exceeded]
  note D = websocket_admission_before_registration [where ws = ?c and J = ?J and cfg = default_config
      and g = ?g and monotonic = "double 5 0" and utcnow = 1000 and frames = ?frames and rl = ?free and m = ?m
      and token = "''valid-token''" and td = ?td]
  have "websocket_chat ?J default_config ?g (double 5 0) 1000 ?frames ?full ?m ?a
      = (None, ?full, ?m, ?a\<lparr>wire := [Close 4401]\<rparr>)"
    using A ra by (simp add: ws_do_def new_websocket_def)
  moreover have "websocket_chat ?J default_config ?g (double 5 0) 1000 ?frames ?full ?m ?b
      = (None, ?full, ?m, (new_websocket 7 True)\<lparr>query_token := Some ''forged'', wire := [Close 4401]\<rparr>)"
    using B rb db by (simp add: ws_do_def new_websocket_def)
  moreover have "websocket_chat ?J default_config ?g (double 5 0) 1000 ?frames ?full ?m ?c
      = (None, ?full, ?m,
         (new_websocket 7 True)\<lparr>authorization := Some ''Bearer valid-token'', wire := [Close 4429]\<rparr>)"
    using C rc dc by (simp add: key hfull ws_do_def new_websocket_def)
  moreover have "websocket_chat ?J default_config ?g (double 5 0) 1000 ?frames ?free ?m ?c
      = (None, \<lparr>limit = 1, window_seconds = 60, calls = [''alice'' \<mapsto> [double 5 0]]\<rparr>, ?m,
         (new_websocket 7 True)\<lparr>authorization := Some ''Bearer valid-token'',
           scope_user := Some ?td,
           wire := [Accept, Receive_text, Send_text (Ai_response [104, 105] 1000 ''alice''), Receive_text]\<rparr>)"
    using D rc dc
    by (simp add: key hfree connect_def ws_do_def new_websocket_def send_text_def
        chat_except_def disconnect_def)
  ultimately show ?thesis by blast
qed

section \<open>Properties of the chat stream\<close>

declare partial_responses.simps [simp del]

lemma partial_responses_step:
  "0 < cs \<Longrightarrow> i < length words \<Longrightarrow>
   partial_responses cs words i rt =
     Partial_response (py_strip (rt @ py_join [32] (take cs (drop i words)) @ [32]))
       (min (real (i + cs) / real (length words)) 1)
     # partial_responses cs words (i + cs) (rt @ py_join [32] (take cs (drop i words)) @ [32])"
  by (subst partial_responses.simps) (simp add: Let_def)

lemma partial_responses_done:
  "\<not> (0 < cs \<and> i < length words) \<Longrightarrow> partial_responses cs words i rt = []"
  by (subst partial_responses.simps) auto

lemma partial_responses_etype:
  "\<forall>e\<in>set (partial_responses cs words i rt). etype e = ''partial_response''"
proof (induction cs words i rt rule: partial_responses.induct)
  case (1 cs words i rt)
  show ?case
  proof (cases "0 < cs \<and> i < length words")
    case True
    then show ?thesis
      using "1.IH" by (simp add: partial_responses_step)
  next
    case False
    show ?thesis
      by (simp add: partial_responses_done [OF False])
  qed
qed

lemma filter_none: "\<forall>e\<in>set xs. \<not> P e \<Longrightarrow> filter P xs = []"
  by (induction xs) auto

text \<open>
  Claim C4. When the response generator returns, the stream of \<^verbatim>\<open>/chat\<close> ends
  normally; its first event is the \<open>session_start\<close>, its last two events are the one
  \<open>final_response\<close> immediately followed by the one \<open>session_end\<close>, and no event
  before them is of either kind, so nothing follows the \<open>session_end\<close>.
\<close>

theorem chat_stream_success_shape:
  "get_healthcare_response (message msg) (msg_context msg) = Inr ai_response \<longrightarrow>
     snd (generate_response get_healthcare_response uuid4 msg) = None
     \<and> (\<exists>sid body.
          fst (generate_response get_healthcare_response uuid4 msg)
            = Session_start sid (language msg) # body
              @ [Final_response ai_response (95 / 100) (language msg) ''healthcare'', Session_end sid]
          \<and> (\<forall>e\<in>set body. etype e \<noteq> ''session_start'' \<and> etype e \<noteq> ''final_response''
                \<and> etype e \<noteq> ''session_end''))
     \<and> etype (hd (fst (generate_response get_healthcare_response uuid4 msg))) = ''session_start''
     \<and> etype (last (fst (generate_response get_healthcare_response uuid4 msg))) = ''session_end''
     \<and> length (filter (\<lambda>e. etype e = ''final_response'')
                 (fst (generate_response get_healthcare_response uuid4 msg))) = 1
     \<and> length (filter (\<lambda>e. etype e = ''session_end'')
                 (fst (generate_response get_healthcare_response uuid4 msg))) = 1"
proof
  assume ok: "get_healthcare_response (message msg) (msg_context msg) = Inr ai_response"
  let ?sid = "case session_id msg of None \<Rightarrow> uuid4 | Some s \<Rightarrow> if s \<noteq> [] then s else uuid4"
  let ?parts = "partial_responses chunk_size (py_split ai_response) 0 []"
  let ?body = "Thinking ''Analyzing your healthcare query...'' # ?parts"
  let ?evs = "fst (generate_response get_healthcare_response uuid4 msg)"
  have evs: "?evs = Session_start ?sid (language msg) # ?body
      @ [Final_response ai_response (95 / 100) (language msg) ''healthcare'', Session_end ?sid]"
    using ok by (simp add: generate_response_def Let_def)
  have parts: "\<forall>e\<in>set ?parts. etype e = ''partial_response''"
    by (rule partial_responses_etype)
  have body: "\<forall>e\<in>set ?body. etype e \<noteq> ''session_start'' \<and> etype e \<noteq> ''final_response''
      \<and> etype e \<noteq> ''session_end''"
    using parts by simp
  have nf: "filter (\<lambda>e. etype e = ''final_response'') ?parts = []"
    using parts by (intro filter_none) simp
  have ne: "filter (\<lambda>e. etype e = ''session_end'') ?parts = []"
    using parts by (intro filter_none) simp
  have "snd (generate_response get_healthcare_response uuid4 msg) = None"
    using ok by (simp add: generate_response_def Let_def)
  moreover have "\<exists>sid body. ?evs = Session_start sid (language msg) # body
        @ [Final_response ai_response (95 / 100) (language msg) ''healthcare'', Session_end sid]
      \<and> (\<forall>e\<in>set body. etype e \<noteq> ''session_start'' \<and> etype e \<noteq> ''final_response''
            \<and> etype e \<noteq> ''session_end'')"
    using evs body by blast
  moreover have "etype (hd ?evs) = ''session_start''"
    by (simp add: evs)
  moreover have "etype (last ?evs) = ''session_end''"
    by (simp add: evs)
  moreover have "length (filter (\<lambda>e. etype e = ''final_response'') ?evs) = 1"
    by (simp add: evs nf)
  moreover have "length (filter (\<lambda>e. etype e = ''session_end'') ?evs) = 1"
    by (simp add: evs ne)
  ultimately show "snd (generate_response get_healthcare_response uuid4 msg) = None
     \<and> (\<exists>sid body.
          ?evs = Session_start sid (language msg) # body
              @ [Final_response ai_response (95 / 100) (language msg) ''healthcare'', Session_end sid]
          \<and> (\<forall>e\<in>set body. etype e \<noteq> ''session_start'' \<and> etype e \<noteq> ''final_response''
                \<and> etype e \<noteq> ''session_end''))
     \<and> etype (hd ?evs) = ''session_start''
     \<and> etype (last ?evs) = ''session_end''
     \<and> length (filter (\<lambda>e. etype e = ''final_response'') ?evs) = 1
     \<and> length (filter (\<lambda>e. etype e = ''session_end'') ?evs) = 1"
    by blast
qed

theorem chat_stream_success_shape_witness:
  "fst (generate_response (\<lambda>m c. Inr [72, 105]) ''u-1''
          \<lparr>message = [63], language = ''en'', session_id = None, msg_context = None\<rparr>)
     = [Session_start ''u-1'' ''en'', Thinking ''Analyzing your healthcare query...'',
        Partial_response [72, 105] 1,
        Final_response [72, 105] (95 / 100) ''en'' ''healthcare'', Session_end ''u-1'']
   \<and> snd (generate_response (\<lambda>m c. Inr [72, 105]) ''u-1''
          \<lparr>message = [63], language = ''en'', session_id = None, msg_context = None\<rparr>) = None
   \<and> etype (hd (fst (generate_response (\<lambda>m c. Inr [72, 105]) ''u-1''
          \<lparr>message = [63], language = ''en'', session_id = None, msg_context = None\<rparr>))) = ''session_start''
   \<and> etype (last (fst (generate_response (\<lambda>m c. Inr [72, 105]) ''u-1''
          \<lparr>message = [63], language = ''en'', session_id = None, msg_context = None\<rparr>))) = ''session_end''
   \<and> length (filter (\<lambda>e. etype e = ''final_response'')
        (fst (generate_response (\<lambda>m c. Inr [72, 105]) ''u-1''
          \<lparr>message = [63], language = ''en'', session_id = None, msg_context = None\<rparr>))) = 1
   \<and> length (filter (\<lambda>e. etype e = ''session_end'')
        (fst (generate_response (\<lambda>m c. Inr [72, 105]) ''u-1''
          \<lparr>message = [63], language = ''en'', session_id = None, msg_context = None\<rparr>))) = 1"
proof -
  let ?g = "\<lambda>m c. Inr [72, 105] :: py_exception + ustr"
  let ?msg = "\<lparr>message = [63], language = ''en'', session_id = None, msg_context = None\<rparr>"
  have words: "py_split [72, 105] = [[72, 105]]"
    by (simp add: py_split_def isspace_def)
  have parts: "partial_responses chunk_size [[72, 105]] 0 [] = [Partial_response [72, 105] 1]"
    by (simp add: chunk_size_def partial_responses_step partial_responses_done py_strip_def isspace_def)
  have "fst (generate_response ?g ''u-1'' ?msg)
     = [Session_start ''u-1'' ''en'', Thinking ''Analyzing your healthcare query...'',
        Partial_response [72, 105] 1,
        Final_response [72, 105] (95 / 100) ''en'' ''healthcare'', Session_end ''u-1'']"
    by (simp add: generate_response_def Let_def words parts)
  then show ?thesis
    using chat_stream_success_shape [where get_healthcare_response = ?g and msg = ?msg
        and ai_response = "[72, 105]" and ?uuid4.0 = "''u-1''"]
    by simp
qed

text \<open>
  The generator of \<^verbatim>\<open>/chat\<close> has no exception handler and no event of type
  \<open>error\<close>: whatever the response generator does, no event of a stream has that type.
\<close>

lemma generate_response_no_error_event:
  "\<forall>e\<in>set (fst (generate_response get_healthcare_response uuid4 msg)). etype e \<noteq> ''error''"
proof (cases "get_healthcare_response (message msg) (msg_context msg)")
  case (Inl e)
  then show ?thesis by (simp add: generate_response_def Let_def)
next
  case (Inr ai_response)
  then show ?thesis
    using partial_responses_etype [of chunk_size "py_split ai_response" 0 "[]"]
    by (auto simp: generate_response_def Let_def)
qed

section \<open>Properties of the chunked delivery\<close>

lemma split_from_words:
  "list_all (\<lambda>c. \<not> isspace c) cur \<Longrightarrow> list_all word_ok (split_from cur s)"
  by (induction s arbitrary: cur) (auto simp: word_ok_def)

lemma py_split_words: "list_all word_ok (py_split s)"
  by (simp add: py_split_def split_from_words)

lemma spaced_append: "spaced (xs @ ys) = spaced xs @ spaced ys"
  by (simp add: spaced_def)

lemma join_space: "ws \<noteq> [] \<Longrightarrow> py_join [32] ws @ [32] = spaced ws"
  by (induction "[32::nat]" ws rule: py_join.induct) (simp_all add: spaced_def)

lemma join_nonempty: "ws \<noteq> [] \<Longrightarrow> list_all word_ok ws \<Longrightarrow> py_join sep ws \<noteq> []"
  by (induction sep ws rule: py_join.induct) (simp_all add: word_ok_def)

lemma hd_join: "ws \<noteq> [] \<Longrightarrow> list_all word_ok ws \<Longrightarrow> hd (py_join sep ws) = hd (hd ws)"
  by (induction sep ws rule: py_join.induct) (simp_all add: word_ok_def)

lemma last_join: "ws \<noteq> [] \<Longrightarrow> list_all word_ok ws \<Longrightarrow> last (py_join sep ws) = last (last ws)"
  by (induction sep ws rule: py_join.induct) (simp_all add: word_ok_def join_nonempty)

lemma word_ok_ends: "word_ok w \<Longrightarrow> \<not> isspace (hd w) \<and> \<not> isspace (last w)"
  by (cases w) (auto simp: word_ok_def list_all_iff)

lemma strip_no_outer_space:
  assumes "j \<noteq> []" "\<not> isspace (hd j)" "\<not> isspace (last j)"
  shows "py_strip (j @ [32]) = j"
proof -
  have front: "dropWhile isspace (j @ [32]) = j @ [32]"
    using assms(1,2) by (cases j) simp_all
  have "rev j \<noteq> []" "\<not> isspace (hd (rev j))"
    using assms(1,3) by (simp_all add: hd_rev)
  then have rear: "dropWhile isspace (rev j) = rev j"
    by (cases "rev j") simp_all
  have "isspace 32" by (simp add: isspace_def)
  then show ?thesis
    by (simp add: py_strip_def front rear)
qed

lemma strip_spaced:
  assumes "ws \<noteq> []" "list_all word_ok ws"
  shows "py_strip (spaced ws) = py_join [32] ws"
proof -
  let ?j = "py_join [32] ws"
  have ok: "word_ok (hd ws)" "word_ok (last ws)"
    using assms by (simp_all add: list_all_iff)
  have "?j \<noteq> []" using assms by (rule join_nonempty)
  moreover have "\<not> isspace (hd ?j)"
    using assms ok(1) by (simp add: hd_join word_ok_ends)
  moreover have "\<not> isspace (last ?j)"
    using assms ok(2) by (simp add: last_join word_ok_ends)
  ultimately have "py_strip (?j @ [32]) = ?j"
    by (rule strip_no_outer_space)
  then show ?thesis
    using assms(1) by (simp add: join_space)
qed

text \<open>The loop: how many events it yields, and what the \<open>k\<close>-th one carries.\<close>

lemma div_plus_one: "0 < cs \<Longrightarrow> (x + cs) div cs = Suc (x div (cs::nat))"
  by simp

lemma chunks_arith:
  fixes n i cs :: nat
  assumes "0 < cs" "i < n"
  shows "Suc ((n - (i + cs) + cs - 1) div cs) = (n - i + cs - 1) div cs"
proof -
  define x where "x = n - (i + cs) + cs - 1"
  define y where "y = n - i + cs - 1"
  show ?thesis
  proof (cases "i + cs \<le> n")
    case True
    have "y = x + cs"
      unfolding x_def y_def using True assms by arith
    then have "y div cs = Suc (x div cs)"
      using assms(1) by (simp only: div_plus_one)
    then show ?thesis
      unfolding x_def y_def by simp
  next
    case False
    have "x = cs - 1"
      unfolding x_def using False by arith
    then have x0: "x div cs = 0"
      using assms(1) by simp
    define r where "r = n - i - 1"
    have "y = r + cs" "r < cs"
      unfolding y_def r_def using False assms by arith+
    then have "y div cs = Suc 0"
      using assms(1) by (simp only: div_plus_one) simp
    then show ?thesis
      using x0 unfolding x_def y_def by simp
  qed
qed

lemma partial_responses_length:
  "0 < cs \<Longrightarrow> length (partial_responses cs words i rt) = (length words - i + cs - 1) div cs"
proof (induction cs words i rt rule: partial_responses.induct)
  case (1 cs words i rt)
  show ?case
  proof (cases "i < length words")
    case True
    let ?rt' = "rt @ py_join [32] (take cs (drop i words)) @ [32]"
    have "length (partial_responses cs words i rt)
        = Suc (length (partial_responses cs words (i + cs) ?rt'))"
      using True "1.prems" by (simp add: partial_responses_step)
    also have "length (partial_responses cs words (i + cs) ?rt')
        = (length words - (i + cs) + cs - 1) div cs"
      using True "1.prems" by (intro "1.IH") simp_all
    also have "Suc ((length words - (i + cs) + cs - 1) div cs) = (length words - i + cs - 1) div cs"
      using "1.prems" True by (rule chunks_arith)
    finally show ?thesis .
  next
    case False
    then have "partial_responses cs words i rt = []"
      by (simp add: partial_responses_done)
    moreover have "(length words - i + cs - 1) div cs = 0"
      using False "1.prems" by simp
    ultimately show ?thesis by simp
  qed
qed

lemma spaced_take_add:
  "spaced (take a xs) @ spaced (take b (drop a xs)) = spaced (take (a + b) xs)"
  by (simp add: take_add spaced_append)

lemma partial_responses_nth:
  "0 < cs \<Longrightarrow> i + k * cs < length words \<Longrightarrow>
   partial_responses cs words i rt ! k =
     Partial_response (py_strip (rt @ spaced (take (Suc k * cs) (drop i words))))
       (min (real (i + Suc k * cs) / real (length words)) 1)"
proof (induction k arbitrary: i rt)
  case 0
  then have "take cs (drop i words) \<noteq> []" by simp
  then show ?case
    using 0 by (simp add: partial_responses_step join_space)
next
  case (Suc k)
  let ?chunk = "take cs (drop i words)"
  let ?rt' = "rt @ py_join [32] ?chunk @ [32]"
  have i: "i < length words" using Suc.prems by simp
  then have chunk: "?chunk \<noteq> []" using Suc.prems(1) by simp
  have "partial_responses cs words i rt ! Suc k = partial_responses cs words (i + cs) ?rt' ! k"
    using Suc.prems(1) i by (simp add: partial_responses_step)
  also have "\<dots> = Partial_response (py_strip (?rt' @ spaced (take (Suc k * cs) (drop (i + cs) words))))
       (min (real (i + cs + Suc k * cs) / real (length words)) 1)"
    using Suc.prems by (intro Suc.IH) (simp_all add: algebra_simps)
  also have "?rt' @ spaced (take (Suc k * cs) (drop (i + cs) words))
      = rt @ spaced (take (Suc (Suc k) * cs) (drop i words))"
  proof -
    have "spaced ?chunk @ spaced (take (Suc k * cs) (drop cs (drop i words)))
        = spaced (take (cs + Suc k * cs) (drop i words))"
      by (rule spaced_take_add)
    then show ?thesis
      using chunk by (simp add: join_space add.commute)
  qed
  also have "i + cs + Suc k * cs = i + Suc (Suc k) * cs" by simp
  finally show ?case .
qed

lemma chunks_cover:
  fixes n cs :: nat
  assumes "0 < cs"
  shows "n \<le> ((n + cs - 1) div cs) * cs" and "0 < n \<Longrightarrow> ((n + cs - 1) div cs) * cs < n + cs"
proof -
  define x where "x = n + cs - 1"
  have lo: "x div cs * cs \<le> x"
    by simp
  have "x < cs + x div cs * cs"
    using assms by (rule dividend_less_div_times)
  then show "n \<le> ((n + cs - 1) div cs) * cs"
    unfolding x_def using assms by arith
  show "((n + cs - 1) div cs) * cs < n + cs" if "0 < n"
    using lo that assms unfolding x_def by arith
qed

lemma chunks_index:
  fixes n cs k :: nat
  assumes "0 < cs" "k < (n + cs - 1) div cs"
  shows "k * cs < n"
proof -
  define q where "q = (n + cs - 1) div cs"
  have "0 < n"
  proof (rule ccontr)
    assume "\<not> 0 < n"
    then have "(n + cs - 1) div cs = 0" using assms(1) by simp
    then show False using assms(2) by simp
  qed
  then have "q * cs < n + cs"
    unfolding q_def using assms(1) chunks_cover(2) by blast
  moreover have "Suc k * cs \<le> q * cs"
    using assms(2) unfolding q_def by (intro mult_le_mono1) simp
  ultimately show ?thesis by simp
qed

lemma chunks_ceiling:
  fixes n cs :: nat
  assumes "0 < cs" "0 < n"
  shows "int ((n + cs - 1) div cs) = \<lceil>real n / real cs\<rceil>"
proof -
  define q where "q = (n + cs - 1) div cs"
  have "n \<le> q * cs" and "q * cs < n + cs"
    unfolding q_def using assms chunks_cover by blast+
  then have "real n \<le> real q * real cs" and "real q * real cs < real n + real cs"
    by (metis of_nat_le_iff of_nat_mult, metis of_nat_less_iff of_nat_mult of_nat_add)
  then have a: "real n \<le> real q * real cs" and b: "(real q - 1) * real cs < real n"
    by (simp_all add: algebra_simps)
  have c: "0 < real cs" using assms(1) by simp
  have "real n / real cs \<le> real q"
    using a c by (simp only: pos_divide_le_eq)
  moreover have "real q - 1 < real n / real cs"
    using b c by (simp only: pos_less_divide_eq)
  ultimately have "\<lceil>real n / real cs\<rceil> = int q"
    by (intro ceiling_unique) simp_all
  then show ?thesis
    by (simp add: q_def)
qed

lemma progress_values_partial:
  "\<forall>k<length evs. evs ! k = Partial_response (t k) (p k) \<Longrightarrow>
   progress_values evs = map p [0..<length evs]"
proof (induction evs arbitrary: t p)
  case Nil
  then show ?case by simp
next
  case (Cons e evs)
  have e: "e = Partial_response (t 0) (p 0)"
    using Cons.prems by force
  have "\<forall>k<length evs. evs ! k = Partial_response (t (Suc k)) (p (Suc k))"
    using Cons.prems by force
  then have "progress_values evs = map (\<lambda>k. p (Suc k)) [0..<length evs]"
    by (rule Cons.IH)
  then show ?case
    by (simp add: e map_upt_Suc del: upt_Suc)
qed

lemma progress_values_append:
  "progress_values (xs @ ys) = progress_values xs @ progress_values ys"
  by (induction xs rule: progress_values.induct) simp_all

lemma sorted_map_upt:
  fixes p :: "nat \<Rightarrow> real"
  assumes "\<And>j k. j \<le> k \<Longrightarrow> p j \<le> p k"
  shows "sorted (map p [0..<n])"
  by (simp add: sorted_iff_nth_mono assms)

lemma list_all_take: "list_all P xs \<Longrightarrow> list_all P (take n xs)"
  by (auto simp: list_all_iff dest: in_set_takeD)

lemma partial_responses_events:
  assumes cs: "0 < cs" and words: "list_all word_ok words" and k: "k < length (partial_responses cs words 0 [])"
  shows "partial_responses cs words 0 [] ! k =
     Partial_response (py_join [32] (take (Suc k * cs) words))
       (min (real (Suc k * cs) / real (length words)) 1)"
proof -
  have "k < (length words + cs - 1) div cs"
    using k cs by (simp add: partial_responses_length)
  then have in_range: "k * cs < length words"
    using cs by (rule chunks_index [rotated])
  then have "take (Suc k * cs) words \<noteq> []"
    using cs by (cases words) simp_all
  moreover have "list_all word_ok (take (Suc k * cs) words)"
    using words by (rule list_all_take)
  ultimately have "py_strip (spaced (take (Suc k * cs) words)) = py_join [32] (take (Suc k * cs) words)"
    by (rule strip_spaced)
  moreover have "partial_responses cs words 0 [] ! k =
     Partial_response (py_strip ([] @ spaced (take (Suc k * cs) (drop 0 words))))
       (min (real (0 + Suc k * cs) / real (length words)) 1)"
    using cs in_range by (intro partial_responses_nth) simp_all
  ultimately show ?thesis by simp
qed

lemma progress_values_of_loop:
  assumes cs: "0 < cs" and words: "list_all word_ok words"
  shows "progress_values (partial_responses cs words 0 [])
     = map (\<lambda>k. min (real (Suc k * cs) / real (length words)) 1)
         [0..<length (partial_responses cs words 0 [])]"
  using partial_responses_events [OF cs words]
  by (intro progress_values_partial [where t = "\<lambda>k. py_join [32] (take (Suc k * cs) words)"]) blast

text \<open>
  Claim C3. For a response text of \<open>N \<ge> 1\<close> words and a chunk size \<open>C > 0\<close>, the
  loop yields \<open>ceil (N / C)\<close> \<open>partial_response\<close> events; the \<open>k\<close>-th of them
  (from 0) carries the first \<open>(k + 1) * C\<close> words joined by single spaces, which is
  everything emitted so far, and the progress \<open>min ((k + 1) * C / N) 1\<close>; the progress
  values never decrease and the last one is exactly 1. The events of that kind in the
  stream of \<^verbatim>\<open>/chat\<close> are those of the loop with the chunk size 10.
\<close>

theorem partial_responses_progress:
  "(0 < cs \<and> words = py_split ai_response \<and> 1 \<le> length words \<longrightarrow>
      int (length (partial_responses cs words 0 [])) = \<lceil>real (length words) / real cs\<rceil>
      \<and> (\<forall>k<length (partial_responses cs words 0 []).
            partial_responses cs words 0 [] ! k =
              Partial_response (py_join [32] (take (Suc k * cs) words))
                (min (real (Suc k * cs) / real (length words)) 1))
      \<and> length (progress_values (partial_responses cs words 0 []))
          = length (partial_responses cs words 0 [])
      \<and> sorted (progress_values (partial_responses cs words 0 []))
      \<and> last (progress_values (partial_responses cs words 0 [])) = 1)
   \<and> (get_healthcare_response (message msg) (msg_context msg) = Inr ai_response \<longrightarrow>
        filter (\<lambda>e. etype e = ''partial_response'')
            (fst (generate_response get_healthcare_response uuid4 msg))
          = partial_responses chunk_size (py_split ai_response) 0 []
        \<and> progress_values (fst (generate_response get_healthcare_response uuid4 msg))
          = progress_values (partial_responses chunk_size (py_split ai_response) 0 []))
   \<and> chunk_size = 10"
proof (intro conjI impI)
  assume a: "0 < cs \<and> words = py_split ai_response \<and> 1 \<le> length words"
  then have cs: "0 < cs" and n: "0 < length words" by auto
  have words: "list_all word_ok words"
    using a py_split_words by simp
  let ?evs = "partial_responses cs words 0 []"
  let ?p = "\<lambda>k. min (real (Suc k * cs) / real (length words)) 1"
  have len: "length ?evs = (length words + cs - 1) div cs"
    using cs by (simp add: partial_responses_length)
  show "int (length ?evs) = \<lceil>real (length words) / real cs\<rceil>"
    using cs n by (simp only: len chunks_ceiling)
  show "\<forall>k<length ?evs. ?evs ! k = Partial_response (py_join [32] (take (Suc k * cs) words)) (?p k)"
    using partial_responses_events [OF cs words] by blast
  have pv: "progress_values ?evs = map ?p [0..<length ?evs]"
    using cs words by (rule progress_values_of_loop)
  show "length (progress_values ?evs) = length ?evs"
    by (simp add: pv)
  have mono: "?p j \<le> ?p k" if "j \<le> k" for j k
  proof -
    have "Suc j * cs \<le> Suc k * cs"
      using that by (intro mult_le_mono1) simp
    then have "real (Suc j * cs) \<le> real (Suc k * cs)"
      by (simp only: of_nat_le_iff)
    then have "real (Suc j * cs) / real (length words) \<le> real (Suc k * cs) / real (length words)"
      by (rule divide_right_mono) simp
    then show ?thesis by simp
  qed
  show "sorted (progress_values ?evs)"
    unfolding pv using mono by (rule sorted_map_upt)
  define q where "q = length ?evs"
  have cover: "length words \<le> q * cs"
    unfolding q_def using cs by (simp only: len chunks_cover(1))
  then obtain q' where q': "q = Suc q'"
    using n by (cases q) simp_all
  have "progress_values ?evs = map ?p [0..<Suc q']"
    using pv by (simp only: q_def [symmetric] q')
  then have "last (progress_values ?evs) = ?p q'"
    by simp
  moreover have "real (length words) \<le> real (Suc q' * cs)"
    using cover by (simp only: q' of_nat_le_iff)
  then have "1 \<le> real (Suc q' * cs) / real (length words)"
    using n by (simp add: pos_le_divide_eq)
  then have "?p q' = 1"
    by (rule min_absorb2)
  ultimately show "last (progress_values ?evs) = 1"
    by (simp only:)
next
  assume ok: "get_healthcare_response (message msg) (msg_context msg) = Inr ai_response"
  let ?parts = "partial_responses chunk_size (py_split ai_response) 0 []"
  have same: "filter (\<lambda>e. etype e = ''partial_response'') ?parts = ?parts"
    using partial_responses_etype by (intro filter_True) blast
  show "filter (\<lambda>e. etype e = ''partial_response'')
            (fst (generate_response get_healthcare_response uuid4 msg)) = ?parts"
    using ok by (simp add: generate_response_def Let_def same)
  show "progress_values (fst (generate_response get_healthcare_response uuid4 msg))
          = progress_values ?parts"
    using ok by (simp add: generate_response_def Let_def progress_values_append)
next
  show "chunk_size = 10" by (simp add: chunk_size_def)
qed

theorem partial_responses_progress_witness:
  "py_split [97, 32, 98, 32, 32, 99] = [[97], [98], [99]]
   \<and> length (partial_responses 2 [[97], [98], [99]] 0 []) = 2
   \<and> partial_responses 2 [[97], [98], [99]] 0 [] ! 0 = Partial_response [97, 32, 98] (2 / 3)
   \<and> partial_responses 2 [[97], [98], [99]] 0 [] ! 1 = Partial_response [97, 32, 98, 32, 99] 1
   \<and> sorted (progress_values (partial_responses 2 [[97], [98], [99]] 0 []))
   \<and> last (progress_values (partial_responses 2 [[97], [98], [99]] 0 [])) = 1
   \<and> progress_values (fst (generate_response (\<lambda>m c. Inr [72, 105]) ''u-1''
          \<lparr>message = [63], language = ''en'', session_id = None, msg_context = None\<rparr>))
       = progress_values (partial_responses chunk_size (py_split [72, 105]) 0 [])"
proof -
  let ?words = "[[97], [98], [99]] :: ustr list"
  let ?evs = "partial_responses 2 ?words 0 []"
  have words: "py_split [97, 32, 98, 32, 32, 99] = ?words"
    by (simp add: py_split_def isspace_def)
  have c: "\<lceil>real (length ?words) / real (2::nat)\<rceil> = 2"
    by (simp add: ceiling_eq_iff)
  note T = partial_responses_progress [where cs = 2 and words = ?words
      and ai_response = "[97, 32, 98, 32, 32, 99]" and get_healthcare_response = "\<lambda>m c. Inr [72, 105]"
      and msg = "\<lparr>message = [63], language = ''en'', session_id = None, msg_context = None\<rparr>"
      and ?uuid4.0 = "''u-1''"]
  have len: "length ?evs = 2"
    using T by (simp only: words c) simp
  have nth: "\<forall>k<length ?evs. ?evs ! k = Partial_response (py_join [32] (take (Suc k * 2) ?words))
      (min (real (Suc k * 2) / real (length ?words)) 1)"
    using T by (simp only: words) simp
  have "?evs ! 0 = Partial_response [97, 32, 98] (2 / 3)"
    using nth len by simp
  moreover have "?evs ! 1 = Partial_response [97, 32, 98, 32, 99] 1"
    using nth len by simp
  moreover have "sorted (progress_values ?evs)" "last (progress_values ?evs) = 1"
    using T by (simp_all only: words) simp_all
  moreover have "progress_values (fst (generate_response (\<lambda>m c. Inr [72, 105]) ''u-1''
          \<lparr>message = [63], language = ''en'', session_id = None, msg_context = None\<rparr>))
       = progress_values (partial_responses chunk_size (py_split [72, 105]) 0 [])"
    using partial_responses_progress [where ai_response = "[72, 105]"
        and get_healthcare_response = "\<lambda>m c. Inr [72, 105]"
        and msg = "\<lparr>message = [63], language = ''en'', session_id = None, msg_context = None\<rparr>"
        and ?uuid4.0 = "''u-1''"]
    by simp
  ultimately show ?thesis
    using words len by blast
qed

section \<open>Properties of the token service\<close>





















end
